theory Spec2Isabelle
  imports Complex_Main
begin

section \<open>Neon Strike: the authoritative room simulation of gameServer\<close>

text \<open>
  A shallow embedding of the game server's room simulation: the per-tick physics of
  \<^verbatim>\<open>updateGameState\<close>, the power-up resolver \<^verbatim>\<open>applyPowerUp\<close>, the impact and
  recoil helpers, the round reset, the dash and ability handlers and the delayed
  callbacks they schedule.

  Conventions of the embedding.
  \<^item> A JavaScript \<^verbatim>\<open>number\<close> that holds a coordinate, a velocity, a force or a time is a
    \<open>real\<close>: the model abstracts from the rounding of IEEE doubles. Counters that only
    ever hold whole numbers (score, abilityCooldown, hitCooldown) are \<open>int\<close>.
  \<^item> The two \<^verbatim>\<open>PlayerState\<close> objects are reached through references in the source
    (\<^verbatim>\<open>pState\<close>, \<^verbatim>\<open>opponent\<close>, \<^verbatim>\<open>player\<close>); the model names them by \<open>pid\<close> and
    updates the one record of the room, so aliasing is kept.
  \<^item> Mutation is explicit state passing on the \<open>room\<close> record. The record also carries
    the part of the runtime the code talks to: the queue of pending timers of
    \<^verbatim>\<open>setTimeout\<close>/\<^verbatim>\<open>setInterval\<close>, the clock read by \<^verbatim>\<open>Date.now()\<close>, the messages
    handed to \<^verbatim>\<open>broadcast\<close>, the module-level id counters and the values drawn from
    \<^verbatim>\<open>Math.random()\<close>.
  \<^item> Every closure handed to a timer is a constructor of \<open>callback\<close> holding the values
    the closure captured; \<open>runCallback\<close> is its body.
\<close>

subsection \<open>Data model\<close>

datatype pid = P1 | P2

datatype game_mode = Casual | Competitive

record key_state =
  up :: bool
  down :: bool
  left :: bool
  right :: bool

text \<open>\<^verbatim>\<open>interface Player\<close>: the connection side of a participant (the socket is not modelled).\<close>

record player =
  pl_id :: pid
  keys :: key_state
  pl_selectedAbility :: "string option"

record echo_impact =
  e_angle :: real
  e_force :: real
  e_time :: real

record player_state =
  p_x :: real
  p_y :: real
  p_vx :: real
  p_vy :: real
  radius :: real
  mass :: real
  score :: int
  dashReady :: bool
  isDashing :: bool
  isBlocking :: bool
  recoil :: bool
  speedMult :: real
  hasShield :: bool
  isFrozen :: bool
  isStunned :: bool
  isMeteor :: bool
  isGrid :: bool
  isEchoActive :: bool
  isEchoFrozen :: bool
  isInfinityActive :: bool
  isVesselActive :: bool
  echoHistory :: "echo_impact list"
  gridDirection :: "real \<times> real"
  color :: string
  name :: string
  selectedAbility :: "string option"
  abilityCooldown :: int

record power_up_state =
  pu_id :: nat
  pu_x :: real
  pu_y :: real
  pu_type :: string
  pu_color :: string
  pulse :: real

record mirage_state =
  m_id :: nat
  m_owner :: pid
  m_x :: real
  m_y :: real
  m_vx :: real
  m_vy :: real
  m_life :: real
  hitCooldown :: "int option"

record void_well_state =
  v_id :: nat
  v_x :: real
  v_y :: real
  v_life :: real
  v_owner :: pid

record game_state =
  p1 :: player_state
  p2 :: player_state
  powerUps :: "power_up_state list"
  mirages :: "mirage_state list"
  voidWells :: "void_well_state list"
  shake :: real
  flash :: real
  isPaused :: bool
  gameActive :: bool
  winner :: "string option"
  gameMode :: game_mode
  playersColliding :: bool

text \<open>
  The closures the source hands to \<^verbatim>\<open>setTimeout\<close>, \<^verbatim>\<open>setInterval\<close> and \<^verbatim>\<open>trackTimer\<close>,
  one constructor per closure, with the variables it captured.
\<close>

datatype callback =
    StunOff pid
  | GhostBump pid real real
  | SpeedOff pid
  | SizeOff pid
  | ShieldOff pid
  | FreezeOff pid
  | MeteorLand pid pid real real
  | GridOff pid
  | EchoPull pid pid real nat bool
  | EchoUnfreeze pid
  | EchoReplay pid echo_impact
  | EchoMiss pid
  | BlitzEnd pid pid real nat
  | BlitzResume pid pid real nat
  | BlitzFinal pid
  | InfinityOff pid
  | VesselOff pid
  | RecoilOff pid
  | DashOff pid
  | BlockOff pid
  | DashReadyOn pid
  | RoundReadyCb
  | RoundGoCb
  | StartUnpause

text \<open>
  A pending timer: its handle, the clock value from which it may fire, its closure, and
  whether it was created by \<^verbatim>\<open>trackTimer\<close> (whose wrapper removes the handle from
  \<^verbatim>\<open>room.abilityTimers\<close> after the closure has run).
\<close>

record timer =
  t_id :: nat
  t_due :: real
  t_cb :: callback
  t_tracked :: bool

text \<open>The messages handed to \<^verbatim>\<open>broadcast\<close>; a state argument is the snapshot serialised.\<close>

datatype message =
    GameStarted game_state game_mode
  | StateUpdate game_state
  | PowerupSpawned power_up_state
  | PowerupCollected nat string
  | WaveEffect real real pid
  | CollisionEffect real real real
  | RoundOver string game_state
  | RoundReady
  | RoundGo
  | GameOver string game_state

text \<open>
  \<^verbatim>\<open>interface Room\<close>. The source's \<^verbatim>\<open>gameState\<close> is nullable; every function modelled
  here is called behind the handlers' \<^verbatim>\<open>!room.gameState\<close> guard and dereferences it with
  \<^verbatim>\<open>room.gameState!\<close>, so the field is a plain \<open>game_state\<close>. The fields after
  \<open>abilityTimers\<close> are the runtime: the timer queue, the handle counter, the clock, the
  outbox of \<^verbatim>\<open>broadcast\<close>, the module-level counters \<^verbatim>\<open>voidWellIdCounter\<close> and
  \<^verbatim>\<open>mirageIdCounter\<close>, and the stream of \<^verbatim>\<open>Math.random()\<close> values with the number
  already drawn.
\<close>

record room =
  players :: "player list"
  gameState :: game_state
  r_gameMode :: game_mode
  roundPaused :: bool
  abilityTimers :: "nat list"
  pending :: "timer list"
  nextTimer :: nat
  clock :: real
  sent :: "message list"
  voidWellIdCounter :: nat
  mirageIdCounter :: nat
  random :: "nat \<Rightarrow> real"
  drawn :: nat

definition CANVAS_WIDTH :: real where
  "CANVAS_WIDTH = 1000"

definition CANVAS_HEIGHT :: real where
  "CANVAS_HEIGHT = 650"

definition MAX_SCORE :: int where
  "MAX_SCORE = 21"

definition COMP_COOLDOWN :: int where
  "COMP_COOLDOWN = 600"

subsection \<open>Access to the two player states\<close>

fun other :: "pid \<Rightarrow> pid" where
  "other P1 = P2"
| "other P2 = P1"

fun getP :: "pid \<Rightarrow> game_state \<Rightarrow> player_state" where
  "getP P1 s = p1 s"
| "getP P2 s = p2 s"

fun updP :: "pid \<Rightarrow> (player_state \<Rightarrow> player_state) \<Rightarrow> game_state \<Rightarrow> game_state" where
  "updP P1 f s = s\<lparr>p1 := f (p1 s)\<rparr>"
| "updP P2 f s = s\<lparr>p2 := f (p2 s)\<rparr>"

definition pstate :: "pid \<Rightarrow> room \<Rightarrow> player_state" where
  "pstate i r = getP i (gameState r)"

definition modP :: "pid \<Rightarrow> (player_state \<Rightarrow> player_state) \<Rightarrow> room \<Rightarrow> room" where
  "modP i f r = r\<lparr>gameState := updP i f (gameState r)\<rparr>"

definition modS :: "(game_state \<Rightarrow> game_state) \<Rightarrow> room \<Rightarrow> room" where
  "modS f r = r\<lparr>gameState := f (gameState r)\<rparr>"

text \<open>\<^verbatim>\<open>room.players.find(p => p.id === i)\<close>.\<close>

definition findPlayer :: "pid \<Rightarrow> room \<Rightarrow> player option" where
  "findPlayer i r = find (\<lambda>p. pl_id p = i) (players r)"

subsection \<open>Runtime: Math, broadcast, timers\<close>

text \<open>
  \<^verbatim>\<open>Math.atan2(y, x)\<close> on finite arguments, by the quadrant of the point; at the origin
  the source returns 0.
\<close>

definition atan2 :: "real \<Rightarrow> real \<Rightarrow> real" where
  "atan2 y x =
     (if x > 0 then arctan (y / x)
      else if x < 0 \<and> y \<ge> 0 then arctan (y / x) + pi
      else if x < 0 \<and> y < 0 then arctan (y / x) - pi
      else if y > 0 then pi / 2
      else if y < 0 then - pi / 2
      else 0)"

definition broadcast :: "message \<Rightarrow> room \<Rightarrow> room" where
  "broadcast msg r = r\<lparr>sent := sent r @ [msg]\<rparr>"

text \<open>\<^verbatim>\<open>Math.random()\<close>: the next value of the stream.\<close>

definition nextRandom :: "room \<Rightarrow> real \<times> room" where
  "nextRandom r = (random r (drawn r), r\<lparr>drawn := Suc (drawn r)\<rparr>)"

text \<open>
  \<^verbatim>\<open>setTimeout(cb, delay)\<close> queues the closure under a fresh handle; \<^verbatim>\<open>clearTimeout\<close>
  drops the handle from the queue.
\<close>

definition setTimeout :: "callback \<Rightarrow> real \<Rightarrow> room \<Rightarrow> room" where
  "setTimeout cb delay r =
     r\<lparr>pending := pending r @
            [\<lparr>t_id = nextTimer r, t_due = clock r + delay, t_cb = cb, t_tracked = False\<rparr>],
       nextTimer := Suc (nextTimer r)\<rparr>"

definition clearTimeout :: "nat \<Rightarrow> room \<Rightarrow> room" where
  "clearTimeout h r = r\<lparr>pending := filter (\<lambda>t. t_id t \<noteq> h) (pending r)\<rparr>"

text \<open>
  \<^verbatim>\<open>trackTimer\<close>: a \<^verbatim>\<open>setTimeout\<close> whose handle is pushed on \<^verbatim>\<open>room.abilityTimers\<close>.
\<close>

definition trackTimer :: "callback \<Rightarrow> real \<Rightarrow> room \<Rightarrow> room" where
  "trackTimer cb delay r =
     r\<lparr>pending := pending r @
            [\<lparr>t_id = nextTimer r, t_due = clock r + delay, t_cb = cb, t_tracked = True\<rparr>],
       abilityTimers := abilityTimers r @ [nextTimer r],
       nextTimer := Suc (nextTimer r)\<rparr>"

subsection \<open>Initial state\<close>

definition createPlayerState :: "string \<Rightarrow> string \<Rightarrow> real \<Rightarrow> player_state" where
  "createPlayerState c n x0 =
     \<lparr>p_x = x0, p_y = 325, p_vx = 0, p_vy = 0,
      radius = 20, mass = 1, score = 0,
      dashReady = True, isDashing = False, isBlocking = False, recoil = False,
      speedMult = 1, hasShield = False, isFrozen = False, isStunned = False,
      isMeteor = False, isGrid = False, isEchoActive = False, isEchoFrozen = False,
      isInfinityActive = False, isVesselActive = False,
      echoHistory = [],
      gridDirection = (0, 0),
      color = c, name = n,
      selectedAbility = None,
      abilityCooldown = 0\<rparr>"

definition createInitialGameState :: "game_mode \<Rightarrow> game_state" where
  "createInitialGameState mode =
     \<lparr>p1 = createPlayerState ''#00f2ff'' ''BLUE'' 250,
      p2 = createPlayerState ''#ff0077'' ''RED'' 750,
      powerUps = [],
      mirages = [],
      voidWells = [],
      shake = 0,
      flash = 0,
      isPaused = False,
      gameActive = True,
      winner = None,
      gameMode = mode,
      playersColliding = False\<rparr>"

subsection \<open>applyImpact, triggerRecoil, resetRound\<close>

text \<open>
  \<^verbatim>\<open>applyImpact(player, angle, force)\<close>: ignored by a grid-locked player, buffered with
  the current time by an echo-frozen one, otherwise a velocity change of
  \<^verbatim>\<open>force / mass\<close> along the angle.
\<close>

definition applyImpact :: "pid \<Rightarrow> real \<Rightarrow> real \<Rightarrow> room \<Rightarrow> room" where
  "applyImpact i ang frc r =
     (if isGrid (pstate i r) then r
      else if isEchoFrozen (pstate i r) then
        modP i (\<lambda>p. p\<lparr>echoHistory := echoHistory p @
                         [\<lparr>e_angle = ang, e_force = frc, e_time = clock r\<rparr>]\<rparr>) r
      else
        (let massMultiplier = 1 / mass (pstate i r)
         in modP i (\<lambda>p. p\<lparr>p_vx := p_vx p + cos ang * frc * massMultiplier,
                           p_vy := p_vy p + sin ang * frc * massMultiplier\<rparr>) r))"

definition triggerRecoil :: "pid \<Rightarrow> room \<Rightarrow> room" where
  "triggerRecoil i r =
     setTimeout (RecoilOff i) 500
       (modP i (\<lambda>p. p\<lparr>recoil := True, isBlocking := False, isDashing := False\<rparr>) r)"

definition resetPlayerState :: "player_state \<Rightarrow> player_state" where
  "resetPlayerState p =
     p\<lparr>dashReady := True,
       isDashing := False,
       isBlocking := False,
       recoil := False,
       radius := 20,
       mass := 1,
       speedMult := 1,
       hasShield := False,
       isFrozen := False,
       isStunned := False,
       isMeteor := False,
       isGrid := False,
       isEchoActive := False,
       isEchoFrozen := False,
       isInfinityActive := False,
       isVesselActive := False,
       echoHistory := [],
       gridDirection := (0, 0),
       abilityCooldown := 0\<rparr>"

text \<open>
  \<^verbatim>\<open>resetRound\<close>: clears every handle of \<^verbatim>\<open>room.abilityTimers\<close>, empties the list, puts
  both players back and empties the entity lists.
\<close>

definition resetRound :: "room \<Rightarrow> room" where
  "resetRound r =
     (let r1 = fold clearTimeout (abilityTimers r) r;
          r2 = r1\<lparr>abilityTimers := []\<rparr>;
          r3 = modP P1 (\<lambda>p. p\<lparr>p_x := 250, p_y := 325, p_vx := 0, p_vy := 0\<rparr>) r2;
          r4 = modP P2 (\<lambda>p. p\<lparr>p_x := 750, p_y := 325, p_vx := 0, p_vy := 0\<rparr>) r3;
          r5 = modP P1 resetPlayerState r4;
          r6 = modP P2 resetPlayerState r5
      in modS (\<lambda>s. s\<lparr>powerUps := [], mirages := [], voidWells := []\<rparr>) r6)"

subsection \<open>applyPowerUp\<close>

text \<open>
  The direction of the held keys, as the source accumulates it in three places
  (\<^verbatim>\<open>if (keys.up) dy -= 1; if (keys.down) dy += 1; if (keys.left) dx -= 1;
  if (keys.right) dx += 1\<close>): the pair \<open>(dx, dy)\<close>.
\<close>

definition keyDir :: "key_state \<Rightarrow> real \<times> real" where
  "keyDir k =
     ((if left k then - 1 else 0) + (if right k then 1 else 0),
      (if up k then - 1 else 0) + (if down k then 1 else 0))"

text \<open>
  \<^verbatim>\<open>performBlitzDash\<close>, the closure of the BLITZ case. \<open>bpower\<close> is the captured
  \<^verbatim>\<open>blitzDashPower\<close> and \<open>n\<close> the captured counter \<^verbatim>\<open>blitzDashCount\<close> on entry. The
  follow-up closures are queued with plain \<^verbatim>\<open>setTimeout\<close>, as in the source.
\<close>

definition performBlitzDash :: "pid \<Rightarrow> pid \<Rightarrow> real \<Rightarrow> nat \<Rightarrow> room \<Rightarrow> room" where
  "performBlitzDash i j bpower n r =
     (if n \<ge> 3 then r
      else
        (let pl = pstate i r;
             (bdx0, bdy0) = (case findPlayer i r of None \<Rightarrow> (0, 0) | Some c \<Rightarrow> keyDir (keys c));
             (bdx, bdy) =
               (if bdx0 = 0 \<and> bdy0 = 0 then
                  (if \<bar>p_vx pl\<bar> > 0.5 \<or> \<bar>p_vy pl\<bar> > 0.5 then
                     (let len = sqrt (p_vx pl * p_vx pl + p_vy pl * p_vy pl)
                      in (p_vx pl / len, p_vy pl / len))
                   else ((if p_x (pstate j r) > p_x pl then 1 else - 1), bdy0))
                else
                  (let len = sqrt (bdx0 * bdx0 + bdy0 * bdy0)
                   in (bdx0 / len, bdy0 / len)));
             r1 = modP i (\<lambda>p. p\<lparr>p_vx := bdx * bpower, p_vy := bdy * bpower, isDashing := True\<rparr>) r;
             n' = Suc n
         in if n' < 3 then setTimeout (BlitzEnd i j bpower n') 150 r1
            else setTimeout (BlitzFinal i) 150 r1))"

text \<open>One round of the MIRROR loop: two random draws and one pushed mirage.\<close>

definition spawnMirage :: "pid \<Rightarrow> room \<Rightarrow> room" where
  "spawnMirage i r =
     (let (u1, r1) = nextRandom r;
          ang = u1 * pi * 2;
          (u2, r2) = nextRandom r1;
          spd = 12 + u2 * 6;
          k = Suc (mirageIdCounter r2);
          pl = pstate i r2
      in modS (\<lambda>s. s\<lparr>mirages := mirages s @
                 [\<lparr>m_id = k, m_owner = i, m_x = p_x pl, m_y = p_y pl,
                   m_vx = cos ang * spd, m_vy = sin ang * spd, m_life = 5,
                   hitCooldown = None\<rparr>]\<rparr>)
           (r2\<lparr>mirageIdCounter := k\<rparr>))"

text \<open>
  \<^verbatim>\<open>applyPowerUp(room, player, opponent, type)\<close>; \<open>i\<close> is the actor and \<open>j\<close> the opponent.
  The type is the string the source switches on; an unknown string falls through the
  switch.
\<close>

definition applyPowerUp :: "pid \<Rightarrow> pid \<Rightarrow> string \<Rightarrow> room \<Rightarrow> room" where
  "applyPowerUp i j ty r =
     (if ty = ''SPEED'' then
        trackTimer (SpeedOff i) 5000 (modP i (\<lambda>p. p\<lparr>speedMult := 1.8\<rparr>) r)
      else if ty = ''SIZE'' then
        trackTimer (SizeOff i) 7000 (modP i (\<lambda>p. p\<lparr>radius := 45, mass := 3\<rparr>) r)
      else if ty = ''SHIELD'' then
        trackTimer (ShieldOff i) 8000 (modP i (\<lambda>p. p\<lparr>hasShield := True\<rparr>) r)
      else if ty = ''FREEZE'' then
        trackTimer (FreezeOff j) 4500 (modP j (\<lambda>p. p\<lparr>isFrozen := True\<rparr>) r)
      else if ty = ''WAVE'' then
        (let dx = p_x (pstate j r) - p_x (pstate i r);
             dy = p_y (pstate j r) - p_y (pstate i r);
             dst = sqrt (dx * dx + dy * dy);
             r1 = (if dst < 450 \<and> \<not> isBlocking (pstate j r) \<and> \<not> isGrid (pstate j r) then
                     (let ang = atan2 dy dx;
                          frc = (1 - dst / 450) * 45
                      in modS (\<lambda>s. s\<lparr>shake := 15\<rparr>)
                           (modP j (\<lambda>p. p\<lparr>p_vx := p_vx p + cos ang * frc,
                                            p_vy := p_vy p + sin ang * frc\<rparr>) r))
                   else r)
         in broadcast (WaveEffect (p_x (pstate i r1)) (p_y (pstate i r1)) i) r1)
      else if ty = ''VOID'' then
        (let k = Suc (voidWellIdCounter r)
         in modS (\<lambda>s. s\<lparr>voidWells := voidWells s @
                    [\<lparr>v_id = k, v_x = p_x (pstate i r), v_y = p_y (pstate i r),
                      v_life = 3, v_owner = i\<rparr>]\<rparr>)
              (r\<lparr>voidWellIdCounter := k\<rparr>))
      else if ty = ''MIRROR'' then
        spawnMirage i (spawnMirage i (spawnMirage i (spawnMirage i r)))
      else if ty = ''METEOR'' then
        (let targetX = p_x (pstate j r);
             targetY = p_y (pstate j r)
         in trackTimer (MeteorLand i j targetX targetY) 800
              (modP i (\<lambda>p. p\<lparr>isMeteor := True\<rparr>) r))
      else if ty = ''GRID'' then
        trackTimer (GridOff i) 6000
          (modP i (\<lambda>p. p\<lparr>isGrid := True, p_vx := 0, p_vy := 0,
                           gridDirection := ((if i = P1 then 1 else - 1), 0)\<rparr>) r)
      else if ty = ''ECHO'' then
        (let r1 = modP i (\<lambda>p. p\<lparr>p_vx := 0, p_vy := 0, isEchoActive := True, isStunned := True\<rparr>) r;
             echoDx = p_x (pstate j r1) - p_x (pstate i r1);
             echoDy = p_y (pstate j r1) - p_y (pstate i r1);
             echoDist = sqrt (echoDx * echoDx + echoDy * echoDy)
         in if echoDist < 150 \<and> \<not> isBlocking (pstate j r1) \<and> \<not> isGrid (pstate j r1)
               \<and> \<not> isInfinityActive (pstate j r1) then
              (let targetDist = radius (pstate i r1) + radius (pstate j r1) + 5
               in setTimeout (EchoPull i j targetDist 0 False) 16 r1)
            else trackTimer (EchoMiss i) 400 r1)
      else if ty = ''BLITZ'' then
        (let blitzCurrentSpeed =
               sqrt (p_vx (pstate i r) * p_vx (pstate i r) + p_vy (pstate i r) * p_vy (pstate i r));
             blitzDashPower = max 20 (blitzCurrentSpeed * 2)
         in performBlitzDash i j blitzDashPower 0 r)
      else if ty = ''INFINITY'' then
        trackTimer (InfinityOff i) 6000 (modP i (\<lambda>p. p\<lparr>isInfinityActive := True\<rparr>) r)
      else if ty = ''VESSEL'' then
        trackTimer (VesselOff i) 5000 (modP i (\<lambda>p. p\<lparr>isVesselActive := True\<rparr>) r)
      else r)"

subsection \<open>The delayed closures\<close>

text \<open>
  The replay loop of the ECHO unfreeze closure: one plain \<^verbatim>\<open>setTimeout\<close> per buffered
  impact, delayed by a third of its distance to the first impact, at most one second.
\<close>

fun scheduleReplays :: "pid \<Rightarrow> real \<Rightarrow> echo_impact list \<Rightarrow> room \<Rightarrow> room" where
  "scheduleReplays j startTime [] r = r"
| "scheduleReplays j startTime (h # hs) r =
     scheduleReplays j startTime hs
       (setTimeout (EchoReplay j h) (min 1000 ((e_time h - startTime) / 3)) r)"

text \<open>
  The body of each closure; \<open>h\<close> is the handle under which it was queued. The ECHO pull
  is the source's \<^verbatim>\<open>setInterval\<close>: while it goes on it is queued again under its
  handle, 16 ms later, with the closure variables \<^verbatim>\<open>step\<close> and \<^verbatim>\<open>echoContactMade\<close> as
  it left them; \<^verbatim>\<open>clearInterval\<close> is not queueing it again.
\<close>

fun runCallback :: "callback \<Rightarrow> nat \<Rightarrow> room \<Rightarrow> room" where
  "runCallback (StunOff j) h r = modP j (\<lambda>p. p\<lparr>isStunned := False\<rparr>) r"
| "runCallback (GhostBump j ang frc) h r =
     (let r1 = applyImpact j ang frc r;
          r2 = modS (\<lambda>s. s\<lparr>shake := max (shake s) 5\<rparr>) r1
      in broadcast (CollisionEffect (p_x (pstate j r2)) (p_y (pstate j r2)) 5) r2)"
| "runCallback (SpeedOff i) h r = modP i (\<lambda>p. p\<lparr>speedMult := 1\<rparr>) r"
| "runCallback (SizeOff i) h r = modP i (\<lambda>p. p\<lparr>radius := 20, mass := 1\<rparr>) r"
| "runCallback (ShieldOff i) h r = modP i (\<lambda>p. p\<lparr>hasShield := False\<rparr>) r"
| "runCallback (FreezeOff j) h r = modP j (\<lambda>p. p\<lparr>isFrozen := False\<rparr>) r"
| "runCallback (MeteorLand i j targetX targetY) h r =
     (let r1 = modP i (\<lambda>p. p\<lparr>p_x := targetX, p_y := targetY, isMeteor := False\<rparr>) r;
          r2 = modS (\<lambda>s. s\<lparr>shake := 40\<rparr>) r1;
          dx = p_x (pstate j r2) - p_x (pstate i r2);
          dy = p_y (pstate j r2) - p_y (pstate i r2);
          d = sqrt (dx * dx + dy * dy)
      in if d < 150 \<and> \<not> isBlocking (pstate j r2) \<and> \<not> isGrid (pstate j r2) then
           (let ang = atan2 dy dx
            in modP j (\<lambda>p. p\<lparr>p_vx := p_vx p + cos ang * 50, p_vy := p_vy p + sin ang * 50\<rparr>) r2)
         else r2)"
| "runCallback (GridOff i) h r = modP i (\<lambda>p. p\<lparr>isGrid := False\<rparr>) r"
| "runCallback (EchoPull i j targetDist step echoContactMade) h r =
     (if isInfinityActive (pstate j r) then
        modP i (\<lambda>p. p\<lparr>isEchoActive := False, isStunned := False\<rparr>) r
      else
        (let d = sqrt ((p_x (pstate i r) - p_x (pstate j r))\<^sup>2
                       + (p_y (pstate i r) - p_y (pstate j r))\<^sup>2)
         in if d > targetDist \<and> step < 30 then
              (let stepSize = (d - targetDist) / (30 - real step);
                   a = atan2 (p_y (pstate i r) - p_y (pstate j r))
                             (p_x (pstate i r) - p_x (pstate j r));
                   r1 = modP j (\<lambda>p. p\<lparr>p_x := p_x p + cos a * stepSize,
                                        p_y := p_y p + sin a * stepSize\<rparr>) r
               in r1\<lparr>pending := pending r1 @
                       [\<lparr>t_id = h, t_due = clock r1 + 16,
                         t_cb = EchoPull i j targetDist (Suc step)
                                  (echoContactMade \<or> d < targetDist + 5),
                         t_tracked = False\<rparr>]\<rparr>)
            else
              (let r1 = modP i (\<lambda>p. p\<lparr>isEchoActive := False, isStunned := False\<rparr>) r
               in if echoContactMade \<and> \<not> isEchoFrozen (pstate j r1)
                     \<and> \<not> isInfinityActive (pstate j r1) then
                    setTimeout (EchoUnfreeze j) 3000
                      (modP j (\<lambda>p. p\<lparr>isEchoFrozen := True, echoHistory := []\<rparr>) r1)
                  else r1)))"
| "runCallback (EchoUnfreeze j) h r =
     (let r1 = modP j (\<lambda>p. p\<lparr>isEchoFrozen := False\<rparr>) r;
          hist = echoHistory (pstate j r1);
          startTime = (case hist of [] \<Rightarrow> 0 | h0 # _ \<Rightarrow> e_time h0);
          r2 = scheduleReplays j startTime hist r1
      in modP j (\<lambda>p. p\<lparr>echoHistory := []\<rparr>) r2)"
| "runCallback (EchoReplay j e) h r =
     (if \<not> isGrid (pstate j r) then
        modP j (\<lambda>p. p\<lparr>p_vx := p_vx p + cos (e_angle e) * e_force e,
                         p_vy := p_vy p + sin (e_angle e) * e_force e\<rparr>) r
      else r)"
| "runCallback (EchoMiss i) h r = modP i (\<lambda>p. p\<lparr>isEchoActive := False, isStunned := False\<rparr>) r"
| "runCallback (BlitzEnd i j bpower n) h r =
     setTimeout (BlitzResume i j bpower n) 120
       (modP i (\<lambda>p. p\<lparr>isDashing := False, p_vx := p_vx p * 0.1, p_vy := p_vy p * 0.1,
                        isStunned := True\<rparr>) r)"
| "runCallback (BlitzResume i j bpower n) h r =
     performBlitzDash i j bpower n (modP i (\<lambda>p. p\<lparr>isStunned := False\<rparr>) r)"
| "runCallback (BlitzFinal i) h r = modP i (\<lambda>p. p\<lparr>isDashing := False\<rparr>) r"
| "runCallback (InfinityOff i) h r = modP i (\<lambda>p. p\<lparr>isInfinityActive := False\<rparr>) r"
| "runCallback (VesselOff i) h r = modP i (\<lambda>p. p\<lparr>isVesselActive := False\<rparr>) r"
| "runCallback (RecoilOff i) h r = modP i (\<lambda>p. p\<lparr>recoil := False\<rparr>) r"
| "runCallback (DashOff i) h r = modP i (\<lambda>p. p\<lparr>isDashing := False\<rparr>) r"
| "runCallback (BlockOff i) h r = modP i (\<lambda>p. p\<lparr>isBlocking := False\<rparr>) r"
| "runCallback (DashReadyOn i) h r = modP i (\<lambda>p. p\<lparr>dashReady := True\<rparr>) r"
| "runCallback RoundReadyCb h r = setTimeout RoundGoCb 1500 (broadcast RoundReady r)"
| "runCallback RoundGoCb h r = broadcast RoundGo (r\<lparr>roundPaused := False\<rparr>)"
| "runCallback StartUnpause h r = r\<lparr>roundPaused := False\<rparr>"

text \<open>
  The event loop running the timer with handle \<open>h\<close>: nothing happens unless the handle is
  pending and due; the timer leaves the queue, its closure runs, and the wrapper of
  \<^verbatim>\<open>trackTimer\<close> removes the handle from \<^verbatim>\<open>room.abilityTimers\<close>
  (\<^verbatim>\<open>indexOf\<close> and \<^verbatim>\<open>splice\<close>: the first occurrence).
\<close>

definition fire :: "nat \<Rightarrow> room \<Rightarrow> room" where
  "fire h r =
     (case find (\<lambda>t. t_id t = h) (pending r) of
        None \<Rightarrow> r
      | Some t \<Rightarrow>
          if t_due t \<le> clock r then
            (let r1 = runCallback (t_cb t) h (clearTimeout h r)
             in if t_tracked t then r1\<lparr>abilityTimers := remove1 h (abilityTimers r1)\<rparr> else r1)
          else r)"

text \<open>Time passing: the clock never runs backwards.\<close>

definition advanceClock :: "real \<Rightarrow> room \<Rightarrow> room" where
  "advanceClock dt r = r\<lparr>clock := clock r + max 0 dt\<rparr>"

subsection \<open>updateGameState: entities and fields\<close>

text \<open>\<^verbatim>\<open>state.powerUps.forEach(p => { p.pulse += 0.1; })\<close>.\<close>

definition pulsePowerUps :: "room \<Rightarrow> room" where
  "pulsePowerUps r =
     modS (\<lambda>s. s\<lparr>powerUps := map (\<lambda>p. p\<lparr>pulse := pulse p + 0.1\<rparr>) (powerUps s)\<rparr>) r"

text \<open>
  The head of the mirage loop's body: the mirage moves, turns around past a wall (each
  axis on its own) and ages by one tick.
\<close>

definition mirageMove :: "mirage_state \<Rightarrow> mirage_state" where
  "mirageMove m =
     (let m1 = m\<lparr>m_x := m_x m + m_vx m, m_y := m_y m + m_vy m\<rparr>;
          m2 = (if m_x m1 < 0 \<or> m_x m1 > CANVAS_WIDTH then m1\<lparr>m_vx := m_vx m1 * (- 1)\<rparr> else m1);
          m3 = (if m_y m2 < 0 \<or> m_y m2 > CANVAS_HEIGHT then m2\<lparr>m_vy := m_vy m2 * (- 1)\<rparr> else m2)
      in m3\<lparr>m_life := m_life m3 - 1 / 60\<rparr>)"

text \<open>
  The body of the mirage loop for one mirage, before the removal test. The result is the
  mirage as the loop leaves it, whether the knockback branch was entered, and the room.
  \<open>c0\<close> is the cooldown after \<^verbatim>\<open>if (!m.hitCooldown) m.hitCooldown = 0\<close> (an absent
  field reads as 0) and \<open>c1\<close> after the guarded decrement.
\<close>

definition mirageStep :: "mirage_state \<Rightarrow> room \<Rightarrow> mirage_state \<times> bool \<times> room" where
  "mirageStep m r =
     (let m4 = mirageMove m;
          opp = (if m_owner m4 = P1 then P2 else P1);
          dst = sqrt ((p_x (pstate opp r) - m_x m4)\<^sup>2 + (p_y (pstate opp r) - m_y m4)\<^sup>2);
          c0 = (case hitCooldown m4 of None \<Rightarrow> 0 | Some c \<Rightarrow> c);
          c1 = (if c0 > 0 then c0 - 1 else c0)
      in if dst < 20 + radius (pstate opp r) \<and> \<not> isBlocking (pstate opp r) \<and> c1 \<le> 0 then
           (let ang = atan2 (p_y (pstate opp r) - m_y m4) (p_x (pstate opp r) - m_x m4);
                r1 = (if \<not> isGrid (pstate opp r) then
                        modP opp (\<lambda>p. p\<lparr>p_vx := p_vx p + cos ang * 15,
                                           p_vy := p_vy p + sin ang * 15\<rparr>) r
                      else r)
            in (m4\<lparr>hitCooldown := Some 30\<rparr>, True, r1))
         else (m4\<lparr>hitCooldown := Some c1\<rparr>, False, r))"

text \<open>
  The loop walks \<^verbatim>\<open>state.mirages\<close> from the last index down and splices out a mirage
  whose life has run out: the argument is the list in that order, the result the mirages
  kept, in that order.
\<close>

fun mirageLoop :: "mirage_state list \<Rightarrow> room \<Rightarrow> mirage_state list \<times> room" where
  "mirageLoop [] r = ([], r)"
| "mirageLoop (m # ms) r =
     (let (m', hit, r1) = mirageStep m r;
          (kept, r2) = mirageLoop ms r1
      in ((if m_life m' \<le> 0 then kept else m' # kept), r2))"

definition updateMirages :: "room \<Rightarrow> room" where
  "updateMirages r =
     (let (kept, r1) = mirageLoop (rev (mirages (gameState r))) r
      in modS (\<lambda>s. s\<lparr>mirages := rev kept\<rparr>) r1)"

text \<open>The body of the void-well loop for one well, before the removal test.\<close>

definition voidWellStep :: "void_well_state \<Rightarrow> room \<Rightarrow> void_well_state \<times> room" where
  "voidWellStep v r =
     (let v1 = v\<lparr>v_life := v_life v - 1 / 60\<rparr>;
          opp = (if v_owner v1 = P1 then P2 else P1);
          dx = v_x v1 - p_x (pstate opp r);
          dy = v_y v1 - p_y (pstate opp r);
          dst = sqrt (dx * dx + dy * dy)
      in if dst < 800 \<and> \<not> isBlocking (pstate opp r) \<and> \<not> isGrid (pstate opp r) then
           (let frc = (1 - dst / 800) * 2.5;
                ang = atan2 dy dx;
                r1 = modP opp (\<lambda>p. p\<lparr>p_vx := p_vx p + cos ang * frc,
                                        p_vy := p_vy p + sin ang * frc\<rparr>) r
            in if dst < 50 \<and> \<not> isStunned (pstate opp r1) then
                 (let r2 = modP opp (\<lambda>p. p\<lparr>isStunned := True\<rparr>) r1;
                      r3 = trackTimer (StunOff opp) (v_life v1 * 1000) r2
                  in if gameMode (gameState r3) = Competitive then
                       (v1, modP opp (\<lambda>p. p\<lparr>abilityCooldown :=
                                             min COMP_COOLDOWN (abilityCooldown p + 300)\<rparr>) r3)
                     else (v1, r3))
               else (v1, r1))
         else (v1, r))"

fun voidWellLoop :: "void_well_state list \<Rightarrow> room \<Rightarrow> void_well_state list \<times> room" where
  "voidWellLoop [] r = ([], r)"
| "voidWellLoop (v # vs) r =
     (let (v', r1) = voidWellStep v r;
          (kept, r2) = voidWellLoop vs r1
      in ((if v_life v' \<le> 0 then kept else v' # kept), r2))"

definition updateVoidWells :: "room \<Rightarrow> room" where
  "updateVoidWells r =
     (let (kept, r1) = voidWellLoop (rev (voidWells (gameState r))) r
      in modS (\<lambda>s. s\<lparr>voidWells := rev kept\<rparr>) r1)"

definition INFINITY_RADIUS :: real where
  "INFINITY_RADIUS = 150"

text \<open>
  The body of the infinity-field \<^verbatim>\<open>forEach\<close> for one (owner, target) pair. \<open>dx\<close>, \<open>dy\<close>
  and \<open>dst\<close> are the constants taken on entry; velocities are read where the source
  reads them.
\<close>

definition infinityField :: "pid \<Rightarrow> pid \<Rightarrow> room \<Rightarrow> room" where
  "infinityField ow tg r =
     (if \<not> isInfinityActive (pstate ow r) then r
      else
        (let dx = p_x (pstate ow r) - p_x (pstate tg r);
             dy = p_y (pstate ow r) - p_y (pstate tg r);
             dst = sqrt (dx * dx + dy * dy);
             MIN_DISTANCE = radius (pstate ow r) + radius (pstate tg r) + 20
         in if dst < INFINITY_RADIUS then
              (let proximityFactor = 1 - dst / INFINITY_RADIUS;
                   r1 =
                     (if \<not> isDashing (pstate tg r) then
                        (let slowFactor = 0.05 + (1 - proximityFactor * proximityFactor) * 0.95;
                             ra = (if \<not> isGrid (pstate tg r) \<and> \<not> isEchoFrozen (pstate tg r) then
                                     modP tg (\<lambda>p. p\<lparr>p_vx := p_vx p * slowFactor,
                                                      p_vy := p_vy p * slowFactor\<rparr>) r
                                   else r)
                         in if \<not> isGrid (pstate tg ra) \<and> \<not> isEchoFrozen (pstate tg ra) then
                              (let dragStrength = proximityFactor * proximityFactor * 1.2;
                                   rb = modP tg (\<lambda>p. p\<lparr>p_vx := p_vx p + p_vx (pstate ow ra) * dragStrength * 0.5,
                                                      p_vy := p_vy p + p_vy (pstate ow ra) * dragStrength * 0.5\<rparr>) ra
                               in if dst > 0 then
                                    (let pullStrength = proximityFactor * 0.3
                                     in modP tg (\<lambda>p. p\<lparr>p_vx := p_vx p + (dx / dst) * pullStrength,
                                                        p_vy := p_vy p + (dy / dst) * pullStrength\<rparr>) rb)
                                  else rb)
                            else ra)
                      else r);
                   r2 =
                     (if isDashing (pstate ow r1) \<and> \<not> isDashing (pstate tg r1) \<and> \<not> isGrid (pstate tg r1)
                         \<and> \<not> isEchoFrozen (pstate tg r1) \<and> dst > 0 then
                        (let dashSpeed = sqrt (p_vx (pstate ow r1) * p_vx (pstate ow r1)
                                               + p_vy (pstate ow r1) * p_vy (pstate ow r1))
                         in if dashSpeed > 0 then
                              (let dashDirX = p_vx (pstate ow r1) / dashSpeed;
                                   dashDirY = p_vy (pstate ow r1) / dashSpeed;
                                   toTargetX = (p_x (pstate tg r1) - p_x (pstate ow r1)) / dst;
                                   toTargetY = (p_y (pstate tg r1) - p_y (pstate ow r1)) / dst;
                                   dotProduct = dashDirX * toTargetX + dashDirY * toTargetY;
                                   directionFactor = max 0 dotProduct
                               in if directionFactor > 0 then
                                    (let clampedProximity = max 0 (min 1 proximityFactor);
                                         relVx = p_vx (pstate tg r1) - p_vx (pstate ow r1);
                                         relVy = p_vy (pstate tg r1) - p_vy (pstate ow r1);
                                         strength = clampedProximity * directionFactor;
                                         dampFactor = 0.95 * strength;
                                         ra = modP tg (\<lambda>p. p\<lparr>p_vx := p_vx p - relVx * dampFactor,
                                                            p_vy := p_vy p - relVy * dampFactor\<rparr>) r1;
                                         dragStrength = strength * 0.85
                                     in modP tg (\<lambda>p. p\<lparr>p_vx := p_vx p + p_vx (pstate ow ra) * dragStrength,
                                                        p_vy := p_vy p + p_vy (pstate ow ra) * dragStrength\<rparr>) ra)
                                  else r1)
                            else r1)
                      else r1)
               in if dst < MIN_DISTANCE \<and> dst > 0 \<and> \<not> isGrid (pstate tg r2) then
                    (let ang = atan2 (- dy) (- dx);
                         pushForce = (MIN_DISTANCE - dst) * 1.5;
                         ra = modP tg (\<lambda>p. p\<lparr>p_x := p_x p + cos ang * pushForce,
                                            p_y := p_y p + sin ang * pushForce\<rparr>) r2;
                         velTowardsOwner = (p_vx (pstate tg ra) * dx + p_vy (pstate tg ra) * dy) / dst
                     in if velTowardsOwner > 0 then
                          modP tg (\<lambda>p. p\<lparr>p_vx := p_vx p - (dx / dst) * velTowardsOwner,
                                          p_vy := p_vy p - (dy / dst) * velTowardsOwner\<rparr>) ra
                        else ra)
                  else r2)
            else r))"

subsection \<open>updateGameState: the per-player step\<close>

text \<open>The competitive cooldown decrement at the head of the per-player closure.\<close>

definition cooldownTick :: "pid \<Rightarrow> room \<Rightarrow> room" where
  "cooldownTick i r =
     (if gameMode (gameState r) = Competitive \<and> abilityCooldown (pstate i r) > 0 then
        modP i (\<lambda>p. p\<lparr>abilityCooldown := abilityCooldown p - 1\<rparr>) r
      else r)"

text \<open>
  The velocity part of the per-player closure: movement intent (grid or free), the
  echo-frozen reset and the drag, up to but not including the position update. \<open>k\<close> is
  \<^verbatim>\<open>player.keys\<close>.
\<close>

definition integrateVelocity :: "pid \<Rightarrow> key_state \<Rightarrow> room \<Rightarrow> room" where
  "integrateVelocity i k r =
     (let r1 =
            (if \<not> isBlocking (pstate i r) \<and> \<not> isStunned (pstate i r) \<and> \<not> isMeteor (pstate i r)
                \<and> \<not> isEchoFrozen (pstate i r) then
               (let infinitySlowMult = (if isInfinityActive (pstate i r) then 0.9 else 1.0)
                in if isGrid (pstate i r) then
                     (let gridSpeed = 9.5 * infinitySlowMult;
                          ra = (if up k then modP i (\<lambda>p. p\<lparr>gridDirection := (0, - 1)\<rparr>) r
                                else if down k then modP i (\<lambda>p. p\<lparr>gridDirection := (0, 1)\<rparr>) r
                                else if left k then modP i (\<lambda>p. p\<lparr>gridDirection := (- 1, 0)\<rparr>) r
                                else if right k then modP i (\<lambda>p. p\<lparr>gridDirection := (1, 0)\<rparr>) r
                                else r)
                      in if \<not> isDashing (pstate i ra) then
                           modP i (\<lambda>p. p\<lparr>p_vx := fst (gridDirection p) * gridSpeed,
                                           p_vy := snd (gridDirection p) * gridSpeed\<rparr>) ra
                         else ra)
                   else
                     (let (moveX, moveY) = keyDir k
                      in if moveX \<noteq> 0 \<or> moveY \<noteq> 0 then
                           (let len = sqrt (moveX\<^sup>2 + moveY\<^sup>2);
                                accel = 0.85 * speedMult (pstate i r)
                                          * (if isFrozen (pstate i r) then 0.3 else 1)
                                          * infinitySlowMult
                            in modP i (\<lambda>p. p\<lparr>p_vx := p_vx p + (moveX / len) * accel,
                                              p_vy := p_vy p + (moveY / len) * accel\<rparr>) r)
                         else r))
             else r);
          r2 = (if isEchoFrozen (pstate i r1) then modP i (\<lambda>p. p\<lparr>p_vx := 0, p_vy := 0\<rparr>) r1
                else r1)
      in if \<not> isGrid (pstate i r2) \<and> \<not> isEchoFrozen (pstate i r2) then
           modP i (\<lambda>p. p\<lparr>p_vx := p_vx p * 0.94, p_vy := p_vy p * 0.94\<rparr>) r2
         else r2)"

text \<open>\<^verbatim>\<open>pState.x += pState.vx; pState.y += pState.vy\<close>.\<close>

definition movePlayer :: "pid \<Rightarrow> room \<Rightarrow> room" where
  "movePlayer i r = modP i (\<lambda>p. p\<lparr>p_x := p_x p + p_vx p, p_y := p_y p + p_vy p\<rparr>) r"

text \<open>The four wall tests of a shielded player, in the source's order.\<close>

definition shieldBounce :: "pid \<Rightarrow> room \<Rightarrow> room" where
  "shieldBounce i r =
     (if hasShield (pstate i r) then
        (let r1 = (if p_x (pstate i r) < radius (pstate i r) then
                     modP i (\<lambda>p. p\<lparr>p_x := radius p, p_vx := p_vx p * (- 1)\<rparr>) r
                   else r);
             r2 = (if p_x (pstate i r1) > CANVAS_WIDTH - radius (pstate i r1) then
                     modP i (\<lambda>p. p\<lparr>p_x := CANVAS_WIDTH - radius p, p_vx := p_vx p * (- 1)\<rparr>) r1
                   else r1);
             r3 = (if p_y (pstate i r2) < radius (pstate i r2) then
                     modP i (\<lambda>p. p\<lparr>p_y := radius p, p_vy := p_vy p * (- 1)\<rparr>) r2
                   else r2)
         in if p_y (pstate i r3) > CANVAS_HEIGHT - radius (pstate i r3) then
              modP i (\<lambda>p. p\<lparr>p_y := CANVAS_HEIGHT - radius p, p_vy := p_vy p * (- 1)\<rparr>) r3
            else r3)
      else r)"

text \<open>
  The pickup loop, from the last power-up down: a power-up in reach is applied, spliced
  out and announced. The argument is the list in the loop's order, the result the
  power-ups kept.
\<close>

fun pickupLoop :: "pid \<Rightarrow> pid \<Rightarrow> power_up_state list \<Rightarrow> room \<Rightarrow> power_up_state list \<times> room" where
  "pickupLoop i j [] r = ([], r)"
| "pickupLoop i j (pu # pus) r =
     (let dst = sqrt ((p_x (pstate i r) - pu_x pu)\<^sup>2 + (p_y (pstate i r) - pu_y pu)\<^sup>2)
      in if dst < radius (pstate i r) + 15 then
           (let r1 = applyPowerUp i j (pu_type pu) r;
                r2 = broadcast (PowerupCollected (pu_id pu) (name (pstate i r1))) r1
            in pickupLoop i j pus r2)
         else
           (let (kept, r1) = pickupLoop i j pus r
            in (pu # kept, r1)))"

definition collectPowerUps :: "pid \<Rightarrow> pid \<Rightarrow> room \<Rightarrow> room" where
  "collectPowerUps i j r =
     (let (kept, r1) = pickupLoop i j (rev (powerUps (gameState r))) r
      in modS (\<lambda>s. s\<lparr>powerUps := rev kept\<rparr>) r1)"

text \<open>
  The out-of-bounds test at the end of the per-player closure: the other player scores;
  at \<open>MAX_SCORE\<close> the game ends, otherwise the round is reset and the room pauses.
\<close>

definition outOfBounds :: "player_state \<Rightarrow> bool" where
  "outOfBounds p \<longleftrightarrow> p_x p < 0 \<or> p_x p > CANVAS_WIDTH \<or> p_y p < 0 \<or> p_y p > CANVAS_HEIGHT"

definition boundsCheck :: "pid \<Rightarrow> room \<Rightarrow> room" where
  "boundsCheck i r =
     (if outOfBounds (pstate i r) then
        (let w = (if i = P1 then P2 else P1);
             r1 = modP w (\<lambda>p. p\<lparr>score := score p + 1\<rparr>) r;
             r2 = modS (\<lambda>s. s\<lparr>flash := 1.0\<rparr>) r1
         in if score (pstate w r2) \<ge> MAX_SCORE then
              (let r3 = modS (\<lambda>s. s\<lparr>gameActive := False, winner := Some (name (pstate w r2))\<rparr>) r2;
                   r4 = r3\<lparr>players := map (\<lambda>c. c\<lparr>pl_selectedAbility := None\<rparr>) (players r3)\<rparr>
               in broadcast (GameOver (name (pstate w r4)) (gameState r4)) r4)
            else
              (let r3 = resetRound r2;
                   r4 = broadcast (RoundOver (name (pstate w r3)) (gameState r3)) r3;
                   r5 = r4\<lparr>roundPaused := True\<rparr>
               in setTimeout RoundReadyCb 1000 r5))
      else r)"

text \<open>
  The per-player closure. \<open>c\<close> is the entry \<^verbatim>\<open>player\<close> of the array the \<^verbatim>\<open>forEach\<close> runs
  over, found before the first closure runs.
\<close>

definition playerStep :: "pid \<Rightarrow> player option \<Rightarrow> room \<Rightarrow> room" where
  "playerStep i c r =
     (case c of
        None \<Rightarrow> r
      | Some pl \<Rightarrow>
          (let opp = (if i = P1 then P2 else P1);
               r1 = cooldownTick i r;
               r2 = integrateVelocity i (keys pl) r1;
               r3 = movePlayer i r2;
               r4 = shieldBounce i r3;
               r5 = collectPowerUps i opp r4
           in boundsCheck i r5))"

subsection \<open>updateGameState: player-player collision\<close>

definition dashImpact :: real where
  "dashImpact = 28"

definition bumpForce :: real where
  "bumpForce = 8"

text \<open>\<^verbatim>\<open>state.pN.isVesselActive ? 2.0 : 1.0\<close> and \<^verbatim>\<open>state.pN.isVesselActive ? 1.5 : 1\<close>.\<close>

definition vesselMult :: "pid \<Rightarrow> room \<Rightarrow> real" where
  "vesselMult i r = (if isVesselActive (pstate i r) then 2.0 else 1.0)"

definition vesselShake :: "pid \<Rightarrow> room \<Rightarrow> real" where
  "vesselShake i r = (if isVesselActive (pstate i r) then 1.5 else 1)"

text \<open>The separation of two overlapping players along the collision angle.\<close>

definition separatePlayers :: "real \<Rightarrow> real \<Rightarrow> room \<Rightarrow> room" where
  "separatePlayers ang overlap r =
     (if overlap > 0 then
        (let separateX = cos ang * (overlap / 2 + 1);
             separateY = sin ang * (overlap / 2 + 1);
             r1 = (if \<not> isEchoFrozen (pstate P1 r) \<and> \<not> isGrid (pstate P1 r) then
                     modP P1 (\<lambda>p. p\<lparr>p_x := p_x p - separateX, p_y := p_y p - separateY\<rparr>) r
                   else r);
             r2 = (if \<not> isEchoFrozen (pstate P2 r1) \<and> \<not> isGrid (pstate P2 r1) then
                     modP P2 (\<lambda>p. p\<lparr>p_x := p_x p + separateX, p_y := p_y p + separateY\<rparr>) r1
                   else r1);
             r3 = (if isEchoFrozen (pstate P2 r2) \<and> \<not> isGrid (pstate P1 r2) then
                     modP P1 (\<lambda>p. p\<lparr>p_x := p_x p - separateX * 2, p_y := p_y p - separateY * 2\<rparr>) r2
                   else r2)
         in if isEchoFrozen (pstate P1 r3) \<and> \<not> isGrid (pstate P2 r3) then
              modP P2 (\<lambda>p. p\<lparr>p_x := p_x p + separateX * 2, p_y := p_y p + separateY * 2\<rparr>) r3
            else r3)
      else r)"

text \<open>
  The branches of the collision, each with the \<^verbatim>\<open>collisionIntensity\<close> it leaves. First
  the two dash-into-block branches.
\<close>

definition blockedDash1 :: "real \<Rightarrow> room \<Rightarrow> room \<times> real" where
  "blockedDash1 ang r =
     (let p1VesselMult = vesselMult P1 r;
          r1 = applyImpact P1 (ang + pi) (dashImpact * 2.0) r;
          r2 = applyImpact P2 ang (2 * p1VesselMult) r1;
          r3 = triggerRecoil P1 r2
      in (modS (\<lambda>s. s\<lparr>shake := 20 * vesselShake P1 r3\<rparr>) r3, 20))"

definition blockedDash2 :: "real \<Rightarrow> room \<Rightarrow> room \<times> real" where
  "blockedDash2 ang r =
     (let p2VesselMult = vesselMult P2 r;
          r1 = applyImpact P2 ang (dashImpact * 2.0) r;
          r2 = applyImpact P1 (ang + pi) (2 * p2VesselMult) r1;
          r3 = triggerRecoil P2 r2
      in (modS (\<lambda>s. s\<lparr>shake := 20 * vesselShake P2 r3\<rparr>) r3, 20))"

text \<open>Both dashing.\<close>

definition dashClash :: "real \<Rightarrow> room \<Rightarrow> room \<times> real" where
  "dashClash ang r =
     (let p1VesselMult = vesselMult P1 r;
          p2VesselMult = vesselMult P2 r;
          r1 = applyImpact P1 (ang + pi) (dashImpact * p2VesselMult) r;
          r2 = applyImpact P2 ang (dashImpact * p1VesselMult) r1;
          r3 = (if \<not> isEchoFrozen (pstate P1 r2) then triggerRecoil P1 r2 else r2);
          r4 = (if \<not> isEchoFrozen (pstate P2 r3) then triggerRecoil P2 r3 else r3)
      in (modS (\<lambda>s. s\<lparr>shake := 25\<rparr>) r4, 25))"

text \<open>Exactly one side dashing, not into a block.\<close>

definition dashHit1 :: "real \<Rightarrow> room \<Rightarrow> room \<times> real" where
  "dashHit1 ang r =
     (let p1VesselMult = vesselMult P1 r;
          r1 = applyImpact P2 ang (dashImpact * p1VesselMult) r;
          r2 = (if isEchoFrozen (pstate P2 r1) then
                  modP P1 (\<lambda>p. p\<lparr>p_vx := p_vx p - cos ang * 3, p_vy := p_vy p - sin ang * 3\<rparr>)
                    (modP P1 (\<lambda>p. p\<lparr>p_vx := p_vx p * 0.05, p_vy := p_vy p * 0.05\<rparr>) r1)
                else if \<not> isGrid (pstate P1 r1) then
                  modP P1 (\<lambda>p. p\<lparr>p_vx := p_vx p * 0.8, p_vy := p_vy p * 0.8\<rparr>) r1
                else r1);
          r3 = (if \<not> isEchoFrozen (pstate P2 r2) then triggerRecoil P2 r2 else r2);
          r4 = modS (\<lambda>s. s\<lparr>shake := 15 * vesselShake P1 r3\<rparr>) r3;
          collisionIntensity = 15 * vesselShake P1 r4;
          r5 = (if gameMode (gameState r4) = Competitive then
                  modP P2 (\<lambda>p. p\<lparr>abilityCooldown := min COMP_COOLDOWN (abilityCooldown p + 200)\<rparr>) r4
                else r4)
      in (r5, collisionIntensity))"

definition dashHit2 :: "real \<Rightarrow> room \<Rightarrow> room \<times> real" where
  "dashHit2 ang r =
     (let p2VesselMult = vesselMult P2 r;
          r1 = applyImpact P1 (ang + pi) (dashImpact * p2VesselMult) r;
          r2 = (if isEchoFrozen (pstate P1 r1) then
                  modP P2 (\<lambda>p. p\<lparr>p_vx := p_vx p + cos ang * 3, p_vy := p_vy p + sin ang * 3\<rparr>)
                    (modP P2 (\<lambda>p. p\<lparr>p_vx := p_vx p * 0.05, p_vy := p_vy p * 0.05\<rparr>) r1)
                else if \<not> isGrid (pstate P2 r1) then
                  modP P2 (\<lambda>p. p\<lparr>p_vx := p_vx p * 0.8, p_vy := p_vy p * 0.8\<rparr>) r1
                else r1);
          r3 = (if \<not> isEchoFrozen (pstate P1 r2) then triggerRecoil P1 r2 else r2);
          r4 = modS (\<lambda>s. s\<lparr>shake := 15 * vesselShake P2 r3\<rparr>) r3;
          collisionIntensity = 15 * vesselShake P2 r4;
          r5 = (if gameMode (gameState r4) = Competitive then
                  modP P1 (\<lambda>p. p\<lparr>abilityCooldown := min COMP_COOLDOWN (abilityCooldown p + 200)\<rparr>) r4
                else r4)
      in (r5, collisionIntensity))"

text \<open>
  Neither dashing: the bump. \<open>f1\<close> and \<open>f2\<close> are the forces handed to \<open>applyImpact\<close>; with
  a vessel active the other side gets the same impact again 300 ms later, through
  \<open>trackTimer\<close>.
\<close>

definition bump :: "real \<Rightarrow> room \<Rightarrow> room \<times> real" where
  "bump ang r =
     (let p1HasVessel = isVesselActive (pstate P1 r);
          p2HasVessel = isVesselActive (pstate P2 r);
          vesselShakeMult = (if p1HasVessel \<or> p2HasVessel then 1.5 else 1.0);
          f1 = bumpForce * (mass (pstate P2 r) / mass (pstate P1 r));
          f2 = bumpForce * (mass (pstate P1 r) / mass (pstate P2 r));
          r1 = (if p1HasVessel \<or> p2HasVessel then
                  (if p1HasVessel then
                     trackTimer (GhostBump P2 ang f2) 300
                       (applyImpact P2 ang f2 (applyImpact P1 (ang + pi) f1 r))
                   else
                     trackTimer (GhostBump P1 (ang + pi) f1) 300
                       (applyImpact P1 (ang + pi) f1 (applyImpact P2 ang f2 r)))
                else applyImpact P2 ang f2 (applyImpact P1 (ang + pi) f1 r))
      in (modS (\<lambda>s. s\<lparr>shake := 5 * vesselShakeMult\<rparr>) r1, 5 * vesselShakeMult))"

text \<open>
  The collision block: detection, separation, the branch by dash state, and the
  edge-triggered \<^verbatim>\<open>collision_effect\<close>.
\<close>

definition resolveCollision :: "room \<Rightarrow> room" where
  "resolveCollision r =
     (let dst = sqrt ((p_x (pstate P2 r) - p_x (pstate P1 r))\<^sup>2
                      + (p_y (pstate P2 r) - p_y (pstate P1 r))\<^sup>2)
      in if dst < radius (pstate P1 r) + radius (pstate P2 r) then
           (let ang = atan2 (p_y (pstate P2 r) - p_y (pstate P1 r))
                            (p_x (pstate P2 r) - p_x (pstate P1 r));
                midX = (p_x (pstate P1 r) + p_x (pstate P2 r)) / 2;
                midY = (p_y (pstate P1 r) + p_y (pstate P2 r)) / 2;
                overlap = (radius (pstate P1 r) + radius (pstate P2 r)) - dst;
                r1 = separatePlayers ang overlap r;
                p1Dashing = (isDashing (pstate P1 r1) \<or> speedMult (pstate P1 r1) > 1);
                p2Dashing = (isDashing (pstate P2 r1) \<or> speedMult (pstate P2 r1) > 1);
                (r2, collisionIntensity) =
                  (if p1Dashing \<and> isBlocking (pstate P2 r1) then blockedDash1 ang r1
                   else if p2Dashing \<and> isBlocking (pstate P1 r1) then blockedDash2 ang r1
                   else if p1Dashing \<and> p2Dashing then dashClash ang r1
                   else if p1Dashing then dashHit1 ang r1
                   else if p2Dashing then dashHit2 ang r1
                   else bump ang r1)
            in if \<not> playersColliding (gameState r2) then
                 broadcast (CollisionEffect midX midY collisionIntensity)
                   (modS (\<lambda>s. s\<lparr>playersColliding := True\<rparr>) r2)
               else r2)
         else modS (\<lambda>s. s\<lparr>playersColliding := False\<rparr>) r)"

text \<open>The decay of the two visual magnitudes at the end of the tick.\<close>

definition decayEffects :: "room \<Rightarrow> room" where
  "decayEffects r =
     (let r1 = (if shake (gameState r) > 0 then modS (\<lambda>s. s\<lparr>shake := shake s * 0.9\<rparr>) r else r)
      in if flash (gameState r1) > 0 then modS (\<lambda>s. s\<lparr>flash := flash s - 0.04\<rparr>) r1 else r1)"

subsection \<open>updateGameState and the game loop\<close>

definition updateGameState :: "room \<Rightarrow> room" where
  "updateGameState r =
     (if isPaused (gameState r) \<or> \<not> gameActive (gameState r) then r
      else
        (let r1 = pulsePowerUps r;
             r2 = updateMirages r1;
             r3 = updateVoidWells r2;
             r4 = infinityField P1 P2 r3;
             r5 = infinityField P2 P1 r4;
             c1 = findPlayer P1 r5;
             c2 = findPlayer P2 r5;
             r6 = playerStep P1 c1 r5;
             r7 = playerStep P2 c2 r6;
             r8 = resolveCollision r7
         in decayEffects r8))"

text \<open>
  The closure of the 60 Hz \<^verbatim>\<open>setInterval\<close> of \<^verbatim>\<open>start_game\<close>: a tick and a
  \<^verbatim>\<open>state_update\<close> when the game is active and the round is not paused, nothing
  otherwise.
\<close>

definition gameLoop :: "room \<Rightarrow> room" where
  "gameLoop r =
     (if gameActive (gameState r) \<and> \<not> roundPaused r then
        (let r1 = updateGameState r
         in broadcast (StateUpdate (gameState r1)) r1)
      else r)"

subsection \<open>handleDash and handleAbility\<close>

text \<open>
  \<^verbatim>\<open>handleDash(room, player)\<close>; \<open>c\<close> is the connection that sent \<^verbatim>\<open>dash\<close>. A grid-locked
  player dashes along the grid direction and leaves the grid; otherwise the held keys
  decide between a block (no direction) and a dash. In every case that passes the two
  guards the dash is then marked used for 1600 ms.
\<close>

definition handleDash :: "player \<Rightarrow> room \<Rightarrow> room" where
  "handleDash c r =
     (let i = pl_id c
      in if roundPaused r then r
         else if \<not> dashReady (pstate i r) \<or> recoil (pstate i r) \<or> isFrozen (pstate i r)
                 \<or> isStunned (pstate i r) \<or> isMeteor (pstate i r) \<or> isEchoFrozen (pstate i r) then r
         else
           (let r1 =
                  (if isGrid (pstate i r) then
                     (let (dx, dy) = gridDirection (pstate i r);
                          dashPower = 23
                      in setTimeout (DashOff i) 350
                           (modP i (\<lambda>p. p\<lparr>p_vx := dx * dashPower, p_vy := dy * dashPower,
                                            isDashing := True, isGrid := False\<rparr>) r))
                   else
                     (let (dx, dy) = keyDir (keys c)
                      in if dx = 0 \<and> dy = 0 then
                           setTimeout (BlockOff i) 400
                             (modS (\<lambda>s. s\<lparr>shake := 2\<rparr>)
                                (modP i (\<lambda>p. p\<lparr>p_vx := 0, p_vy := 0, isBlocking := True\<rparr>) r))
                         else
                           (let dashPower = 23;
                                ang = atan2 dy dx
                            in setTimeout (DashOff i) 350
                                 (modP i (\<lambda>p. p\<lparr>p_vx := cos ang * dashPower,
                                                  p_vy := sin ang * dashPower,
                                                  isDashing := True\<rparr>) r))))
            in setTimeout (DashReadyOn i) 1600 (modP i (\<lambda>p. p\<lparr>dashReady := False\<rparr>) r1)))"

text \<open>
  \<^verbatim>\<open>handleAbility(room, player)\<close>. \<^verbatim>\<open>!pState.selectedAbility\<close> holds for an absent
  ability and for the empty string.
\<close>

definition handleAbility :: "player \<Rightarrow> room \<Rightarrow> room" where
  "handleAbility c r =
     (let i = pl_id c;
          j = (if pl_id c = P1 then P2 else P1)
      in if roundPaused r then r
         else
           (case selectedAbility (pstate i r) of
              None \<Rightarrow> r
            | Some ab \<Rightarrow>
                if abilityCooldown (pstate i r) > 0 \<or> ab = [] then r
                else modP i (\<lambda>p. p\<lparr>abilityCooldown := COMP_COOLDOWN\<rparr>) (applyPowerUp i j ab r)))"

text \<open>The \<^verbatim>\<open>ability\<close> message: only a competitive room reaches \<open>handleAbility\<close>.\<close>

definition onAbility :: "player \<Rightarrow> room \<Rightarrow> room" where
  "onAbility c r = (if r_gameMode r \<noteq> Competitive then r else handleAbility c r)"

subsection \<open>Starting a game\<close>

text \<open>
  The \<^verbatim>\<open>Player\<close> object that \<^verbatim>\<open>create_room\<close>, \<^verbatim>\<open>join_room\<close> and \<^verbatim>\<open>quick_play\<close> build: no
  key held, no ability selected.
\<close>

definition noKeys :: key_state where
  "noKeys = \<lparr>up = False, down = False, left = False, right = False\<rparr>"

definition newPlayer :: "pid \<Rightarrow> player" where
  "newPlayer i = \<lparr>pl_id = i, keys = noKeys, pl_selectedAbility = None\<rparr>"

text \<open>
  The room as the \<^verbatim>\<open>start_game\<close> handler leaves it, for a room of mode \<open>mode\<close> that
  holds the players \<open>ps\<close> (the handler requires two), on a runtime with no timer queued
  and the clock at 0: a fresh game state, the selected abilities copied in competitive
  mode, \<^verbatim>\<open>game_started\<close> sent, and the round paused for 1500 ms.
\<close>

definition startedRoom :: "game_mode \<Rightarrow> player list \<Rightarrow> (nat \<Rightarrow> real) \<Rightarrow> room" where
  "startedRoom mode ps rnd =
     (let gs0 = createInitialGameState mode;
          gs = (if mode = Competitive then
                  (let g1 = (case find (\<lambda>p. pl_id p = P1) ps of
                               None \<Rightarrow> gs0
                             | Some c \<Rightarrow> updP P1 (\<lambda>p. p\<lparr>selectedAbility := pl_selectedAbility c\<rparr>) gs0)
                   in (case find (\<lambda>p. pl_id p = P2) ps of
                         None \<Rightarrow> g1
                       | Some c \<Rightarrow> updP P2 (\<lambda>p. p\<lparr>selectedAbility := pl_selectedAbility c\<rparr>) g1))
                else gs0);
          r0 = \<lparr>players = ps, gameState = gs, r_gameMode = mode, roundPaused = False,
                abilityTimers = [], pending = [], nextTimer = 0, clock = 0, sent = [],
                voidWellIdCounter = 0, mirageIdCounter = 0, random = rnd, drawn = 0\<rparr>
      in setTimeout StartUnpause 1500 ((broadcast (GameStarted gs mode) r0)\<lparr>roundPaused := True\<rparr>))"

text \<open>
  A started room of two fresh players once the countdown is over: 1500 ms have passed
  and the unpause closure (handle 0) has run.
\<close>

definition duel :: "game_mode \<Rightarrow> room" where
  "duel mode = fire 0 (advanceClock 1500 (startedRoom mode [newPlayer P1, newPlayer P2] (\<lambda>n. 0)))"

subsection \<open>Notions of the specification\<close>

text \<open>
  The side of the arena of a player is the half in which \<open>createInitialGameState\<close> (and
  every round reset) places the player: \<open>x = 250\<close> for player 1, \<open>x = 750\<close> for player 2.
  A direction points toward the side of player \<open>i\<close> when its horizontal component has the
  sign of that position relative to the middle of the arena.
\<close>

definition homeX :: "pid \<Rightarrow> real" where
  "homeX i = p_x (getP i (createInitialGameState Casual))"

definition towardSideOf :: "pid \<Rightarrow> real \<times> real \<Rightarrow> bool" where
  "towardSideOf i d \<longleftrightarrow> fst d * (homeX i - CANVAS_WIDTH / 2) > 0"

text \<open>
  The acceleration impulse of a tick in the words of the specification: the unit vector
  of the held directions (the zero vector when none is held or the held ones cancel),
  scaled by 0.85, the speed multiplier, 0.3 when frozen and 0.9 when the player's own
  infinity field is active; zero for a player that is blocking, stunned or in meteor
  flight.
\<close>

definition unitInput :: "key_state \<Rightarrow> real \<times> real" where
  "unitInput k =
     (let (mx, my) = keyDir k
      in if mx = 0 \<and> my = 0 then (0, 0)
         else (mx / sqrt (mx\<^sup>2 + my\<^sup>2), my / sqrt (mx\<^sup>2 + my\<^sup>2)))"

definition accelImpulse :: "key_state \<Rightarrow> player_state \<Rightarrow> real \<times> real" where
  "accelImpulse k p =
     (if isBlocking p \<or> isStunned p \<or> isMeteor p then (0, 0)
      else
        (let scale = 0.85 * speedMult p * (if isFrozen p then 0.3 else 1)
                       * (if isInfinityActive p then 0.9 else 1)
         in (fst (unitInput k) * scale, snd (unitInput k) * scale)))"

subsection \<open>Concrete rooms\<close>

text \<open>
  A running casual duel in which player 1, grown by SIZE (radius 45, mass 3), stands at
  \<open>(500, 325)\<close> and player 2 at \<open>(530, 325)\<close>: the two overlap, nobody dashes, nobody
  is boosted, no vessel is active.
\<close>

definition bumpRoom :: room where
  "bumpRoom =
     modP P2 (\<lambda>p. p\<lparr>p_x := 530\<rparr>)
       (modP P1 (\<lambda>p. p\<lparr>p_x := 500, radius := 45, mass := 3\<rparr>) (duel Casual))"

text \<open>
  A running competitive duel in which player 2 has selected GRID and has just been
  echo-frozen by player 1's pull; \<open>frozenGridRoom\<close> is that room after player 2 has sent
  \<^verbatim>\<open>ability\<close>: \<open>handleAbility\<close> does not look at the echo-frozen flag, so player 2 is
  then echo-frozen and grid-locked at once.
\<close>

definition echoFrozenRoom :: room where
  "echoFrozenRoom =
     modP P2 (\<lambda>p. p\<lparr>isEchoFrozen := True, selectedAbility := Some ''GRID''\<rparr>) (duel Competitive)"

definition frozenGridRoom :: room where
  "frozenGridRoom = onAbility (newPlayer P2) echoFrozenRoom"

subsection \<open>Measuring a replay\<close>

text \<open>The magnitude of the velocity change of player \<open>j\<close> between two rooms.\<close>

definition velChange :: "pid \<Rightarrow> room \<Rightarrow> room \<Rightarrow> real" where
  "velChange j r r' =
     sqrt ((p_vx (pstate j r') - p_vx (pstate j r))\<^sup>2 + (p_vy (pstate j r') - p_vy (pstate j r))\<^sup>2)"

text \<open>
  The replay closures of the impacts \<open>es\<close> run one after the other, from room \<open>r\<close>: the sum
  of the magnitudes of the velocity changes they make.
\<close>

fun replaySum :: "pid \<Rightarrow> echo_impact list \<Rightarrow> room \<Rightarrow> real" where
  "replaySum j [] r = 0"
| "replaySum j (e # es) r =
     (let r' = runCallback (EchoReplay j e) 0 r
      in velChange j r r' + replaySum j es r')"

subsection \<open>One mirage over many ticks\<close>

text \<open>
  The life of one mirage over successive ticks: \<open>rs\<close> holds, tick by tick, the room in
  which the mirage loop meets the mirage (any rooms: the opponent may stand anywhere).
  The result tells, tick by tick, whether the knockback branch was entered; the run
  ends when the loop splices the mirage out.
\<close>

fun mirageHits :: "mirage_state \<Rightarrow> room list \<Rightarrow> bool list" where
  "mirageHits m [] = []"
| "mirageHits m (r # rs) =
     (let (m', hit, r') = mirageStep m r
      in hit # (if m_life m' \<le> 0 then [] else mirageHits m' rs))"

text \<open>
  The pieces of one mirage's step, named: the victim (the player that does not own the
  mirage), the cooldown after the tick's guarded decrement, whether the moved mirage
  reaches the victim (closer than 20 plus the victim's radius, victim not blocking), and
  the angle from the moved mirage to the victim.
\<close>

definition mirageVictim :: "mirage_state \<Rightarrow> pid" where
  "mirageVictim m = (if m_owner m = P1 then P2 else P1)"

definition cooledDown :: "mirage_state \<Rightarrow> int" where
  "cooledDown m =
     (let c0 = (case hitCooldown m of None \<Rightarrow> 0 | Some c \<Rightarrow> c)
      in if c0 > 0 then c0 - 1 else c0)"

definition mirageReach :: "mirage_state \<Rightarrow> room \<Rightarrow> bool" where
  "mirageReach m r \<longleftrightarrow>
     sqrt ((p_x (pstate (mirageVictim m) r) - m_x (mirageMove m))\<^sup>2
           + (p_y (pstate (mirageVictim m) r) - m_y (mirageMove m))\<^sup>2)
       < 20 + radius (pstate (mirageVictim m) r)
     \<and> \<not> isBlocking (pstate (mirageVictim m) r)"

definition mirageAngle :: "mirage_state \<Rightarrow> room \<Rightarrow> real" where
  "mirageAngle m r =
     atan2 (p_y (pstate (mirageVictim m) r) - m_y (mirageMove m))
           (p_x (pstate (mirageVictim m) r) - m_x (mirageMove m))"

text \<open>
  The velocity that the step of mirage \<open>m\<close> in room \<open>r\<close> adds to player \<open>j\<close>, read off the
  room the step returns.
\<close>

definition mirageKnock :: "mirage_state \<Rightarrow> room \<Rightarrow> pid \<Rightarrow> real \<times> real" where
  "mirageKnock m r j =
     (p_vx (pstate j (snd (snd (mirageStep m r)))) - p_vx (pstate j r),
      p_vy (pstate j (snd (snd (mirageStep m r)))) - p_vy (pstate j r))"

text \<open>
  The knockbacks of one mirage over successive ticks: tick by tick, the velocity its
  step adds to its victim in the room \<open>rs\<close> holds for that tick; as in \<open>mirageHits\<close> the
  run ends when the loop splices the mirage out.
\<close>

fun mirageKnocks :: "mirage_state \<Rightarrow> room list \<Rightarrow> (real \<times> real) list" where
  "mirageKnocks m [] = []"
| "mirageKnocks m (r # rs) =
     mirageKnock m r (mirageVictim m)
     # (if m_life (fst (mirageStep m r)) \<le> 0 then [] else mirageKnocks (fst (mirageStep m r)) rs)"

text \<open>
  Two rooms in which both players stand alike: same position, radius, blocking and grid
  flag (what the mirage loop reads of a player).
\<close>

definition sameStance :: "room \<Rightarrow> room \<Rightarrow> bool" where
  "sameStance r x \<longleftrightarrow>
     p_x (pstate P1 x) = p_x (pstate P1 r) \<and> p_y (pstate P1 x) = p_y (pstate P1 r)
     \<and> radius (pstate P1 x) = radius (pstate P1 r)
     \<and> isBlocking (pstate P1 x) = isBlocking (pstate P1 r)
     \<and> isGrid (pstate P1 x) = isGrid (pstate P1 r)
     \<and> p_x (pstate P2 x) = p_x (pstate P2 r) \<and> p_y (pstate P2 x) = p_y (pstate P2 r)
     \<and> radius (pstate P2 x) = radius (pstate P2 r)
     \<and> isBlocking (pstate P2 x) = isBlocking (pstate P2 r)
     \<and> isGrid (pstate P2 x) = isGrid (pstate P2 r)"

text \<open>
  A mirage of player 1 that rests on player 2's starting position, as MIRROR would push
  it (no cooldown field yet), with five seconds to live.
\<close>

definition restingMirage :: mirage_state where
  "restingMirage =
     \<lparr>m_id = 1, m_owner = P1, m_x = 750, m_y = 325, m_vx = 0, m_vy = 0, m_life = 5,
      hitCooldown = None\<rparr>"

text \<open>
  A running casual duel at match point: player 2 has 20 points and player 1, three
  units from the left wall, drifts left at 10 units per tick.
\<close>

definition matchPoint :: room where
  "matchPoint =
     modP P2 (\<lambda>p. p\<lparr>score := 20\<rparr>)
       (modP P1 (\<lambda>p. p\<lparr>p_x := 3, p_vx := - 10\<rparr>) (duel Casual))"

text \<open>The same duel with no point scored yet.\<close>

definition nearWall :: room where
  "nearWall = modP P1 (\<lambda>p. p\<lparr>p_x := 3, p_vx := - 10\<rparr>) (duel Casual)"

text \<open>A started casual duel in which player 1 has just taken BLITZ.\<close>

definition blitzRoom :: room where
  "blitzRoom = applyPowerUp P1 P2 ''BLITZ'' (duel Casual)"

subsection \<open>Quiet steps\<close>

text \<open>
  Most of what a tick, a power-up or a delayed closure does leaves the ledger of the
  game alone. A step from room \<open>r\<close> to room \<open>x\<close> is quiet when, for both players, score,
  name, dash readiness and selected ability are kept and an ability cooldown inside
  \<open>[0, COMP_COOLDOWN]\<close> stays inside; the game flags, the pause flag, the connections and
  the clock are kept; the timer queue only grows, by closures that neither restore a
  dash nor belong to the round pause; and the outbox only grows, by messages other than
  \<^verbatim>\<open>round_over\<close> and \<^verbatim>\<open>game_over\<close>.
\<close>

definition pkeep :: "player_state \<Rightarrow> player_state \<Rightarrow> bool" where
  "pkeep p q \<longleftrightarrow>
     score q = score p \<and> name q = name p \<and> dashReady q = dashReady p
     \<and> selectedAbility q = selectedAbility p
     \<and> (0 \<le> abilityCooldown p \<and> abilityCooldown p \<le> COMP_COOLDOWN
          \<longrightarrow> 0 \<le> abilityCooldown q \<and> abilityCooldown q \<le> COMP_COOLDOWN)"

definition skeep :: "game_state \<Rightarrow> game_state \<Rightarrow> bool" where
  "skeep s t \<longleftrightarrow>
     p1 t = p1 s \<and> p2 t = p2 s \<and> gameActive t = gameActive s \<and> winner t = winner s
     \<and> gameMode t = gameMode s \<and> isPaused t = isPaused s"

fun quietCb :: "callback \<Rightarrow> bool" where
  "quietCb (DashReadyOn i) = False"
| "quietCb RoundReadyCb = False"
| "quietCb RoundGoCb = False"
| "quietCb StartUnpause = False"
| "quietCb cb = True"

fun quietMsg :: "message \<Rightarrow> bool" where
  "quietMsg (RoundOver w s) = False"
| "quietMsg (GameOver w s) = False"
| "quietMsg msg = True"

text \<open>List \<open>b\<close> is list \<open>a\<close> followed by elements that all satisfy \<open>P\<close>.\<close>

definition grows :: "('a \<Rightarrow> bool) \<Rightarrow> 'a list \<Rightarrow> 'a list \<Rightarrow> bool" where
  "grows P a b \<longleftrightarrow> take (length a) b = a \<and> list_all P (drop (length a) b)"

definition quiet :: "room \<Rightarrow> room \<Rightarrow> bool" where
  "quiet r x \<longleftrightarrow>
     pkeep (pstate P1 r) (pstate P1 x) \<and> pkeep (pstate P2 r) (pstate P2 x)
     \<and> gameActive (gameState x) = gameActive (gameState r)
     \<and> winner (gameState x) = winner (gameState r)
     \<and> gameMode (gameState x) = gameMode (gameState r)
     \<and> isPaused (gameState x) = isPaused (gameState r)
     \<and> roundPaused x = roundPaused r \<and> players x = players r \<and> clock x = clock r
     \<and> r_gameMode x = r_gameMode r
     \<and> grows (\<lambda>t. quietCb (t_cb t)) (pending r) (pending x)
     \<and> grows quietMsg (sent r) (sent x)"

subsection \<open>Notions for the round and the cooldown\<close>

text \<open>
  The per-player closure of the tick up to its out-of-bounds test, for a connection
  \<open>pl\<close> that is present.
\<close>

definition beforeBounds :: "pid \<Rightarrow> player \<Rightarrow> room \<Rightarrow> room" where
  "beforeBounds i pl r =
     collectPowerUps i (if i = P1 then P2 else P1)
       (shieldBounce i (movePlayer i (integrateVelocity i (keys pl) (cooldownTick i r))))"

text \<open>The tick before the per-player closures: entities and fields.\<close>

definition fieldPhase :: "room \<Rightarrow> room" where
  "fieldPhase r =
     infinityField P2 P1 (infinityField P1 P2 (updateVoidWells (updateMirages (pulsePowerUps r))))"

text \<open>
  The room at the out-of-bounds test of player 1's closure, and at that of player 2's
  closure, in a tick from \<open>r\<close> in which the connections \<open>pl1\<close> and \<open>pl2\<close> are found.
\<close>

definition atTest1 :: "player \<Rightarrow> room \<Rightarrow> room" where
  "atTest1 pl1 r = beforeBounds P1 pl1 (fieldPhase r)"

definition atTest2 :: "player \<Rightarrow> player \<Rightarrow> room \<Rightarrow> room" where
  "atTest2 pl1 pl2 r = beforeBounds P2 pl2 (boundsCheck P1 (atTest1 pl1 r))"

text \<open>Both ability cooldown counters lie in \<open>[0, COMP_COOLDOWN]\<close>.\<close>

definition cooldownOk :: "room \<Rightarrow> bool" where
  "cooldownOk r \<longleftrightarrow>
     0 \<le> abilityCooldown (pstate P1 r) \<and> abilityCooldown (pstate P1 r) \<le> COMP_COOLDOWN
     \<and> 0 \<le> abilityCooldown (pstate P2 r) \<and> abilityCooldown (pstate P2 r) \<le> COMP_COOLDOWN"

text \<open>
  The messages a step from \<open>r\<close> to \<open>x\<close> has added to the outbox, and among a list of
  messages the number of \<^verbatim>\<open>round_over\<close> and of \<^verbatim>\<open>game_over\<close>.
\<close>

definition newSent :: "room \<Rightarrow> room \<Rightarrow> message list" where
  "newSent r x = drop (length (sent r)) (sent x)"

fun isRoundOver :: "message \<Rightarrow> bool" where
  "isRoundOver (RoundOver w s) = True"
| "isRoundOver msg = False"

fun isGameOver :: "message \<Rightarrow> bool" where
  "isGameOver (GameOver w s) = True"
| "isGameOver msg = False"

definition roundEnds :: "message list \<Rightarrow> nat" where
  "roundEnds ms = length (filter isRoundOver ms)"

definition gameEnds :: "message list \<Rightarrow> nat" where
  "gameEnds ms = length (filter isGameOver ms)"

text \<open>
  The game is over in a room: it is not active and the winner is the name of a player
  with at least \<open>MAX_SCORE\<close> points.
\<close>

definition isOver :: "room \<Rightarrow> bool" where
  "isOver r \<longleftrightarrow> \<not> gameActive (gameState r)
     \<and> (\<exists>v. winner (gameState r) = Some (name (pstate v r)) \<and> MAX_SCORE \<le> score (pstate v r))"

subsection \<open>What happens to a room\<close>

text \<open>
  The things that happen to a running room: the closure of the game loop fires, the
  event loop runs the timer with a given handle, time passes, and a connection sends
  \<^verbatim>\<open>dash\<close>, \<^verbatim>\<open>ability\<close> or \<^verbatim>\<open>input\<close>. The connection of a \<^verbatim>\<open>dash\<close> or \<^verbatim>\<open>ability\<close> message
  is given as it is at that moment (its id and the keys it holds); \<^verbatim>\<open>input\<close> replaces the
  keys of the connection with the given id.
\<close>

datatype event = Tick | Fire nat | Elapse real | DashMsg player | AbilityMsg player
  | InputMsg pid key_state

fun roomStep :: "event \<Rightarrow> room \<Rightarrow> room" where
  "roomStep Tick r = gameLoop r"
| "roomStep (Fire h) r = fire h r"
| "roomStep (Elapse dt) r = advanceClock dt r"
| "roomStep (DashMsg c) r = handleDash c r"
| "roomStep (AbilityMsg c) r = onAbility c r"
| "roomStep (InputMsg i k) r =
     r\<lparr>players := map (\<lambda>p. if pl_id p = i then p\<lparr>keys := k\<rparr> else p) (players r)\<rparr>"

definition roomRun :: "event list \<Rightarrow> room \<Rightarrow> room" where
  "roomRun es r = fold roomStep es r"

text \<open>The time that passes in a list of events.\<close>

fun elapsed :: "event list \<Rightarrow> real" where
  "elapsed [] = 0"
| "elapsed (Elapse dt # es) = max 0 dt + elapsed es"
| "elapsed (e # es) = elapsed es"

text \<open>
  The guards of \<^verbatim>\<open>handleDash\<close>: the round is not paused, the dash is ready and the player
  is not in recoil, frozen, stunned, in the air as a meteor or echo-frozen.
\<close>

definition canDash :: "player \<Rightarrow> room \<Rightarrow> bool" where
  "canDash c r \<longleftrightarrow>
     \<not> roundPaused r \<and> dashReady (pstate (pl_id c) r) \<and> \<not> recoil (pstate (pl_id c) r)
     \<and> \<not> isFrozen (pstate (pl_id c) r) \<and> \<not> isStunned (pstate (pl_id c) r)
     \<and> \<not> isMeteor (pstate (pl_id c) r) \<and> \<not> isEchoFrozen (pstate (pl_id c) r)"

text \<open>
  A pending timer does not undo a dash cooldown of player \<open>i\<close> started at time \<open>t0\<close>: if
  its closure gives that player's dash back or ends a pause of the room, it is due no
  earlier than \<open>t0 + 1600\<close>; if it announces the next round (and then queues the end of
  the pause 1500 ms later), no earlier than \<open>t0 + 1000\<close>.
\<close>

definition lateEnough :: "pid \<Rightarrow> real \<Rightarrow> timer \<Rightarrow> bool" where
  "lateEnough i t0 t \<longleftrightarrow>
     (t_cb t = DashReadyOn i \<or> t_cb t = RoundGoCb \<or> t_cb t = StartUnpause \<longrightarrow> t0 + 1600 \<le> t_due t)
     \<and> (t_cb t = RoundReadyCb \<longrightarrow> t0 + 1000 \<le> t_due t)"

text \<open>
  The dash of player \<open>i\<close> is locked since \<open>t0\<close>: until \<open>t0 + 1600\<close> the dash is not ready or
  the round is paused, and no pending timer undoes that.
\<close>

definition dashLocked :: "pid \<Rightarrow> real \<Rightarrow> room \<Rightarrow> bool" where
  "dashLocked i t0 y \<longleftrightarrow>
     t0 \<le> clock y
     \<and> (clock y < t0 + 1600 \<longrightarrow>
          (\<not> dashReady (pstate i y) \<or> roundPaused y) \<and> list_all (lateEnough i t0) (pending y))"

section \<open>Properties\<close>

subsection \<open>Reading a player through the room operations\<close>

lemma pstate_modP [simp]: "pstate i (modP j f r) = (if i = j then f (pstate i r) else pstate i r)"
  by (cases i; cases j) (simp_all add: pstate_def modP_def)

lemma pstate_setTimeout [simp]: "pstate i (setTimeout cb d r) = pstate i r"
  by (simp add: pstate_def setTimeout_def)

lemma pstate_trackTimer [simp]: "pstate i (trackTimer cb d r) = pstate i r"
  by (simp add: pstate_def trackTimer_def)

lemma pstate_broadcast [simp]: "pstate i (broadcast m r) = pstate i r"
  by (simp add: pstate_def broadcast_def)

lemma pstate_clearTimeout [simp]: "pstate i (clearTimeout h r) = pstate i r"
  by (simp add: pstate_def clearTimeout_def)

lemma pstate_room_upd [simp]:
  "pstate i (r\<lparr>pending := a\<rparr>) = pstate i r"
  "pstate i (r\<lparr>abilityTimers := b\<rparr>) = pstate i r"
  "pstate i (r\<lparr>roundPaused := c\<rparr>) = pstate i r"
  "pstate i (r\<lparr>players := d\<rparr>) = pstate i r"
  "pstate i (r\<lparr>clock := e\<rparr>) = pstate i r"
  "pstate i (r\<lparr>mirageIdCounter := f\<rparr>) = pstate i r"
  "pstate i (r\<lparr>voidWellIdCounter := g\<rparr>) = pstate i r"
  "pstate i (r\<lparr>drawn := h\<rparr>) = pstate i r"
  by (simp_all add: pstate_def)

lemma getP_state_upd [simp]:
  "getP i (s\<lparr>shake := a\<rparr>) = getP i s"
  "getP i (s\<lparr>flash := b\<rparr>) = getP i s"
  "getP i (s\<lparr>powerUps := c\<rparr>) = getP i s"
  "getP i (s\<lparr>mirages := d\<rparr>) = getP i s"
  "getP i (s\<lparr>voidWells := e\<rparr>) = getP i s"
  "getP i (s\<lparr>gameActive := f\<rparr>) = getP i s"
  "getP i (s\<lparr>winner := g\<rparr>) = getP i s"
  "getP i (s\<lparr>playersColliding := h\<rparr>) = getP i s"
  by (cases i; simp)+

lemma duel_eq:
  "duel mode =
     \<lparr>players = [newPlayer P1, newPlayer P2], gameState = createInitialGameState mode,
      r_gameMode = mode, roundPaused = False, abilityTimers = [], pending = [],
      nextTimer = 1, clock = 1500,
      sent = [GameStarted (createInitialGameState mode) mode],
      voidWellIdCounter = 0, mirageIdCounter = 0, random = (\<lambda>n. 0), drawn = 0\<rparr>"
  by (cases mode)
     (simp_all add: duel_def startedRoom_def fire_def advanceClock_def setTimeout_def
        broadcast_def clearTimeout_def Let_def newPlayer_def createInitialGameState_def
        createPlayerState_def)

lemma pstate_duel [simp]:
  "pstate P1 (duel mode) = createPlayerState ''#00f2ff'' ''BLUE'' 250"
  "pstate P2 (duel mode) = createPlayerState ''#ff0077'' ''RED'' 750"
  by (simp_all add: duel_eq pstate_def createInitialGameState_def)

subsection \<open>GRID\<close>

lemma grid_player:
  "pstate i (applyPowerUp i j ''GRID'' r) =
     (pstate i r)\<lparr>isGrid := True, p_vx := 0, p_vy := 0,
                   gridDirection := ((if i = P1 then 1 else - 1), 0)\<rparr>"
  by (simp add: applyPowerUp_def)

lemma grid_timer:
  "pending (applyPowerUp i j ''GRID'' r) =
     pending r @ [\<lparr>t_id = nextTimer r, t_due = clock r + 6000, t_cb = GridOff i, t_tracked = True\<rparr>]"
  "abilityTimers (applyPowerUp i j ''GRID'' r) = abilityTimers r @ [nextTimer r]"
  by (simp_all add: applyPowerUp_def trackTimer_def modP_def)

lemma homeX_simps [simp]: "homeX P1 = 250" "homeX P2 = 750"
  by (simp_all add: homeX_def createInitialGameState_def createPlayerState_def)

text \<open>
  C8, as amended. Applying GRID to an actor zeroes the actor's velocity, sets the grid
  lock, queues through \<open>trackTimer\<close> the closure that lifts the lock 6000 ms later, and
  sets the grid direction to \<open>(1, 0)\<close> for player 1 and \<open>(- 1, 0)\<close> for player 2: the
  direction points toward the side of the other player, away from the actor's own side.
\<close>

theorem grid_powerup:
  "p_vx (pstate i (applyPowerUp i j ''GRID'' r)) = 0
   \<and> p_vy (pstate i (applyPowerUp i j ''GRID'' r)) = 0
   \<and> isGrid (pstate i (applyPowerUp i j ''GRID'' r))
   \<and> pending (applyPowerUp i j ''GRID'' r) =
       pending r @ [\<lparr>t_id = nextTimer r, t_due = clock r + 6000, t_cb = GridOff i, t_tracked = True\<rparr>]
   \<and> abilityTimers (applyPowerUp i j ''GRID'' r) = abilityTimers r @ [nextTimer r]
   \<and> \<not> isGrid (pstate i (runCallback (GridOff i) h r'))
   \<and> gridDirection (pstate i (applyPowerUp i j ''GRID'' r)) = ((if i = P1 then 1 else - 1), 0)
   \<and> towardSideOf (other i) (gridDirection (pstate i (applyPowerUp i j ''GRID'' r)))
   \<and> \<not> towardSideOf i (gridDirection (pstate i (applyPowerUp i j ''GRID'' r)))"
  by (cases i) (simp_all add: grid_player grid_timer towardSideOf_def CANVAS_WIDTH_def)

theorem grid_powerup_witness:
  "gridDirection (pstate P2 (applyPowerUp P2 P1 ''GRID'' (duel Casual))) = (- 1, 0)
   \<and> towardSideOf P1 (gridDirection (pstate P2 (applyPowerUp P2 P1 ''GRID'' (duel Casual))))
   \<and> map t_due (pending (applyPowerUp P2 P1 ''GRID'' (duel Casual))) = [7500]"
  using grid_powerup [of P2 P1 "duel Casual"]
  by (simp add: duel_eq towardSideOf_def CANVAS_WIDTH_def)

text \<open>
  The claim as stated fails for player 1 in a fresh duel: the grid direction is \<open>(1, 0)\<close>,
  pointing to the right, while player 1's side is the left half.
\<close>

theorem grid_direction_counterexample:
  "\<not> towardSideOf P1 (gridDirection (pstate P1 (applyPowerUp P1 P2 ''GRID'' (duel Casual))))"
  by (simp add: grid_player towardSideOf_def CANVAS_WIDTH_def)

subsection \<open>Velocity integration\<close>

text \<open>
  C6. For a player that is neither grid-locked nor echo-frozen, the velocity part of the
  per-player step leaves the velocity at (previous velocity + acceleration impulse)
  times 0.94, in both components.
\<close>

theorem integrate_velocity_drag:
  assumes "\<not> isGrid (pstate i r)" and "\<not> isEchoFrozen (pstate i r)"
  shows "p_vx (pstate i (integrateVelocity i k r))
           = (p_vx (pstate i r) + fst (accelImpulse k (pstate i r))) * 0.94
         \<and> p_vy (pstate i (integrateVelocity i k r))
           = (p_vy (pstate i r) + snd (accelImpulse k (pstate i r))) * 0.94"
  using assms
  by (auto simp add: integrateVelocity_def accelImpulse_def unitInput_def Let_def
        split: prod.splits)

theorem integrate_velocity_drag_witness:
  "\<not> isGrid (pstate P1 (duel Casual)) \<and> \<not> isEchoFrozen (pstate P1 (duel Casual))
   \<and> p_vx (pstate P1 (integrateVelocity P1 (noKeys\<lparr>right := True\<rparr>) (duel Casual))) = 799 / 1000
   \<and> p_vy (pstate P1 (integrateVelocity P1 (noKeys\<lparr>right := True\<rparr>) (duel Casual))) = 0"
proof -
  have a: "\<not> isGrid (pstate P1 (duel Casual))"
    and b: "\<not> isEchoFrozen (pstate P1 (duel Casual))"
    by (simp_all add: createPlayerState_def)
  show ?thesis
    using integrate_velocity_drag [OF a b, of "noKeys\<lparr>right := True\<rparr>"] a b
    by (simp add: accelImpulse_def unitInput_def keyDir_def noKeys_def createPlayerState_def)
qed

subsection \<open>The bump\<close>

lemma impulse_magnitude: "sqrt ((cos a * k)\<^sup>2 + (sin a * k)\<^sup>2) = \<bar>k\<bar>"
proof -
  have "(cos a * k)\<^sup>2 + (sin a * k)\<^sup>2 = ((cos a)\<^sup>2 + (sin a)\<^sup>2) * k\<^sup>2"
    by (simp only: power_mult_distrib distrib_right)
  also have "\<dots> = k\<^sup>2" by simp
  finally show ?thesis by simp
qed

lemma separatePlayers_frame:
  "(pstate i (separatePlayers a ov r))\<lparr>p_x := x, p_y := y\<rparr> = (pstate i r)\<lparr>p_x := x, p_y := y\<rparr>"
  by (cases i) (simp_all add: separatePlayers_def Let_def)

lemmas separatePlayers_fields [simp] =
  arg_cong [where f = p_vx, OF separatePlayers_frame, simplified]
  arg_cong [where f = p_vy, OF separatePlayers_frame, simplified]
  arg_cong [where f = mass, OF separatePlayers_frame, simplified]
  arg_cong [where f = isGrid, OF separatePlayers_frame, simplified]
  arg_cong [where f = isEchoFrozen, OF separatePlayers_frame, simplified]
  arg_cong [where f = isVesselActive, OF separatePlayers_frame, simplified]
  arg_cong [where f = isDashing, OF separatePlayers_frame, simplified]
  arg_cong [where f = isBlocking, OF separatePlayers_frame, simplified]
  arg_cong [where f = speedMult, OF separatePlayers_frame, simplified]

lemma pstate_modS [simp]: "pstate i (modS f r) = getP i (f (gameState r))"
  by (simp add: pstate_def modS_def)

lemma getP_gameState [simp]: "getP i (gameState r) = pstate i r"
  by (simp add: pstate_def)

lemma bump_plain:
  assumes "\<not> isVesselActive (pstate P1 r)" and "\<not> isVesselActive (pstate P2 r)"
    and "\<not> isGrid (pstate P1 r)" and "\<not> isEchoFrozen (pstate P1 r)"
    and "\<not> isGrid (pstate P2 r)" and "\<not> isEchoFrozen (pstate P2 r)"
  shows "pstate P1 (fst (bump ang r)) =
           (pstate P1 r)\<lparr>p_vx := p_vx (pstate P1 r)
                                   + cos (ang + pi) * (bumpForce * (mass (pstate P2 r) / mass (pstate P1 r)))
                                     * (1 / mass (pstate P1 r)),
                         p_vy := p_vy (pstate P1 r)
                                   + sin (ang + pi) * (bumpForce * (mass (pstate P2 r) / mass (pstate P1 r)))
                                     * (1 / mass (pstate P1 r))\<rparr>"
    and "pstate P2 (fst (bump ang r)) =
           (pstate P2 r)\<lparr>p_vx := p_vx (pstate P2 r)
                                   + cos ang * (bumpForce * (mass (pstate P1 r) / mass (pstate P2 r)))
                                     * (1 / mass (pstate P2 r)),
                         p_vy := p_vy (pstate P2 r)
                                   + sin ang * (bumpForce * (mass (pstate P1 r) / mass (pstate P2 r)))
                                     * (1 / mass (pstate P2 r))\<rparr>"
  using assms by (simp_all add: bump_def applyImpact_def Let_def)

lemma resolveCollision_is_bump:
  assumes "sqrt ((p_x (pstate P2 r) - p_x (pstate P1 r))\<^sup>2
                 + (p_y (pstate P2 r) - p_y (pstate P1 r))\<^sup>2)
             < radius (pstate P1 r) + radius (pstate P2 r)"
    and "\<not> isDashing (pstate P1 r)" and "speedMult (pstate P1 r) \<le> 1"
    and "\<not> isDashing (pstate P2 r)" and "speedMult (pstate P2 r) \<le> 1"
  shows "pstate i (resolveCollision r) =
           pstate i (fst (bump
             (atan2 (p_y (pstate P2 r) - p_y (pstate P1 r)) (p_x (pstate P2 r) - p_x (pstate P1 r)))
             (separatePlayers
               (atan2 (p_y (pstate P2 r) - p_y (pstate P1 r)) (p_x (pstate P2 r) - p_x (pstate P1 r)))
               ((radius (pstate P1 r) + radius (pstate P2 r))
                 - sqrt ((p_x (pstate P2 r) - p_x (pstate P1 r))\<^sup>2
                         + (p_y (pstate P2 r) - p_y (pstate P1 r))\<^sup>2)) r)))"
  using assms
  by (simp add: resolveCollision_def Let_def split: prod.splits)

text \<open>
  C2, as amended. In a bump (the players overlap, neither is dashing or speed-boosted,
  no vessel is active) between two players that are neither grid-locked nor echo-frozen,
  the force handed to \<open>applyImpact\<close> is \<open>8 * m2 / m1\<close> for player 1 and \<open>8 * m1 / m2\<close> for
  player 2, and \<open>applyImpact\<close> divides it by the player's own mass once more: the
  velocity of player 1 changes by \<open>8 * m2 / m1\<^sup>2\<close> along the collision angle plus \<open>pi\<close>,
  that of player 2 by \<open>8 * m1 / m2\<^sup>2\<close> along the collision angle.
\<close>

theorem bump_velocity_change:
  assumes "sqrt ((p_x (pstate P2 r) - p_x (pstate P1 r))\<^sup>2
                 + (p_y (pstate P2 r) - p_y (pstate P1 r))\<^sup>2)
             < radius (pstate P1 r) + radius (pstate P2 r)"
    and "\<not> isDashing (pstate P1 r)" and "speedMult (pstate P1 r) \<le> 1"
    and "\<not> isDashing (pstate P2 r)" and "speedMult (pstate P2 r) \<le> 1"
    and "\<not> isVesselActive (pstate P1 r)" and "\<not> isVesselActive (pstate P2 r)"
    and "\<not> isGrid (pstate P1 r)" and "\<not> isEchoFrozen (pstate P1 r)"
    and "\<not> isGrid (pstate P2 r)" and "\<not> isEchoFrozen (pstate P2 r)"
    and "mass (pstate P1 r) > 0" and "mass (pstate P2 r) > 0"
    and "ang = atan2 (p_y (pstate P2 r) - p_y (pstate P1 r)) (p_x (pstate P2 r) - p_x (pstate P1 r))"
    and "f1 = bumpForce * (mass (pstate P2 r) / mass (pstate P1 r))"
    and "f2 = bumpForce * (mass (pstate P1 r) / mass (pstate P2 r))"
  shows "p_vx (pstate P1 (resolveCollision r)) = p_vx (pstate P1 r) + cos (ang + pi) * (f1 / mass (pstate P1 r))
       \<and> p_vy (pstate P1 (resolveCollision r)) = p_vy (pstate P1 r) + sin (ang + pi) * (f1 / mass (pstate P1 r))
       \<and> p_vx (pstate P2 (resolveCollision r)) = p_vx (pstate P2 r) + cos ang * (f2 / mass (pstate P2 r))
       \<and> p_vy (pstate P2 (resolveCollision r)) = p_vy (pstate P2 r) + sin ang * (f2 / mass (pstate P2 r))
       \<and> sqrt ((p_vx (pstate P1 (resolveCollision r)) - p_vx (pstate P1 r))\<^sup>2
               + (p_vy (pstate P1 (resolveCollision r)) - p_vy (pstate P1 r))\<^sup>2)
           = 8 * mass (pstate P2 r) / (mass (pstate P1 r))\<^sup>2
       \<and> sqrt ((p_vx (pstate P2 (resolveCollision r)) - p_vx (pstate P2 r))\<^sup>2
               + (p_vy (pstate P2 (resolveCollision r)) - p_vy (pstate P2 r))\<^sup>2)
           = 8 * mass (pstate P1 r) / (mass (pstate P2 r))\<^sup>2"
proof -
  let ?ov = "(radius (pstate P1 r) + radius (pstate P2 r))
                 - sqrt ((p_x (pstate P2 r) - p_x (pstate P1 r))\<^sup>2
                         + (p_y (pstate P2 r) - p_y (pstate P1 r))\<^sup>2)"
  let ?s = "separatePlayers ang ?ov r"
  have step: "pstate i (resolveCollision r) = pstate i (fst (bump ang ?s))" for i
    using resolveCollision_is_bump [OF assms(1-5)] assms(14) by simp
  have b1: "pstate P1 (fst (bump ang ?s)) =
           (pstate P1 ?s)\<lparr>p_vx := p_vx (pstate P1 r) + cos (ang + pi) * f1 * (1 / mass (pstate P1 r)),
                          p_vy := p_vy (pstate P1 r) + sin (ang + pi) * f1 * (1 / mass (pstate P1 r))\<rparr>"
    using bump_plain(1) [of ?s ang] assms(6-11,15) by simp
  have b2: "pstate P2 (fst (bump ang ?s)) =
           (pstate P2 ?s)\<lparr>p_vx := p_vx (pstate P2 r) + cos ang * f2 * (1 / mass (pstate P2 r)),
                          p_vy := p_vy (pstate P2 r) + sin ang * f2 * (1 / mass (pstate P2 r))\<rparr>"
    using bump_plain(2) [of ?s ang] assms(6-11,16) by simp
  have v1: "p_vx (pstate P1 (resolveCollision r)) = p_vx (pstate P1 r) + cos (ang + pi) * (f1 / mass (pstate P1 r))"
           "p_vy (pstate P1 (resolveCollision r)) = p_vy (pstate P1 r) + sin (ang + pi) * (f1 / mass (pstate P1 r))"
    by (simp_all add: step b1)
  have v2: "p_vx (pstate P2 (resolveCollision r)) = p_vx (pstate P2 r) + cos ang * (f2 / mass (pstate P2 r))"
           "p_vy (pstate P2 (resolveCollision r)) = p_vy (pstate P2 r) + sin ang * (f2 / mass (pstate P2 r))"
    by (simp_all add: step b2)
  have k1: "0 \<le> f1 / mass (pstate P1 r)" and k2: "0 \<le> f2 / mass (pstate P2 r)"
    using assms(12,13,15,16) by (simp_all add: bumpForce_def)
  have m1: "sqrt ((p_vx (pstate P1 (resolveCollision r)) - p_vx (pstate P1 r))\<^sup>2
               + (p_vy (pstate P1 (resolveCollision r)) - p_vy (pstate P1 r))\<^sup>2)
            = f1 / mass (pstate P1 r)"
    using impulse_magnitude [of "ang + pi" "f1 / mass (pstate P1 r)"] k1
    by (simp only: v1 add_diff_cancel_left' abs_of_nonneg)
  have m2: "sqrt ((p_vx (pstate P2 (resolveCollision r)) - p_vx (pstate P2 r))\<^sup>2
               + (p_vy (pstate P2 (resolveCollision r)) - p_vy (pstate P2 r))\<^sup>2)
            = f2 / mass (pstate P2 r)"
    using impulse_magnitude [of ang "f2 / mass (pstate P2 r)"] k2
    by (simp only: v2 add_diff_cancel_left' abs_of_nonneg)
  have e1: "f1 / mass (pstate P1 r) = 8 * mass (pstate P2 r) / (mass (pstate P1 r))\<^sup>2"
    using assms(12,15) by (simp add: bumpForce_def power2_eq_square)
  have e2: "f2 / mass (pstate P2 r) = 8 * mass (pstate P1 r) / (mass (pstate P2 r))\<^sup>2"
    using assms(13,16) by (simp add: bumpForce_def power2_eq_square)
  show ?thesis
    using v1 v2 m1 m2 e1 e2 by simp
qed

lemma pstate_bumpRoom [simp]:
  "pstate P1 bumpRoom = (createPlayerState ''#00f2ff'' ''BLUE'' 250)\<lparr>p_x := 500, radius := 45, mass := 3\<rparr>"
  "pstate P2 bumpRoom = (createPlayerState ''#ff0077'' ''RED'' 750)\<lparr>p_x := 530\<rparr>"
  by (simp_all add: bumpRoom_def)

lemma sqrt_900 [simp]: "sqrt 900 = 30"
  by (rule real_sqrt_unique) simp_all

lemma bumpRoom_hits:
  "sqrt ((p_x (pstate P2 bumpRoom) - p_x (pstate P1 bumpRoom))\<^sup>2
         + (p_y (pstate P2 bumpRoom) - p_y (pstate P1 bumpRoom))\<^sup>2)
     < radius (pstate P1 bumpRoom) + radius (pstate P2 bumpRoom)"
  by (simp add: createPlayerState_def)

lemma bumpRoom_angle:
  "atan2 (p_y (pstate P2 bumpRoom) - p_y (pstate P1 bumpRoom))
         (p_x (pstate P2 bumpRoom) - p_x (pstate P1 bumpRoom)) = 0"
  by (simp add: createPlayerState_def atan2_def)

theorem bump_velocity_change_witness:
  "sqrt ((p_x (pstate P2 bumpRoom) - p_x (pstate P1 bumpRoom))\<^sup>2
         + (p_y (pstate P2 bumpRoom) - p_y (pstate P1 bumpRoom))\<^sup>2)
     < radius (pstate P1 bumpRoom) + radius (pstate P2 bumpRoom)
   \<and> \<not> isDashing (pstate P1 bumpRoom) \<and> speedMult (pstate P1 bumpRoom) \<le> 1
   \<and> \<not> isDashing (pstate P2 bumpRoom) \<and> speedMult (pstate P2 bumpRoom) \<le> 1
   \<and> \<not> isVesselActive (pstate P1 bumpRoom) \<and> \<not> isVesselActive (pstate P2 bumpRoom)
   \<and> \<not> isGrid (pstate P1 bumpRoom) \<and> \<not> isEchoFrozen (pstate P1 bumpRoom)
   \<and> \<not> isGrid (pstate P2 bumpRoom) \<and> \<not> isEchoFrozen (pstate P2 bumpRoom)
   \<and> mass (pstate P1 bumpRoom) = 3 \<and> mass (pstate P2 bumpRoom) = 1
   \<and> p_vx (pstate P1 (resolveCollision bumpRoom)) = - (8 / 9)
   \<and> p_vy (pstate P1 (resolveCollision bumpRoom)) = 0
   \<and> p_vx (pstate P2 (resolveCollision bumpRoom)) = 24
   \<and> p_vy (pstate P2 (resolveCollision bumpRoom)) = 0"
proof -
  have h: "\<not> isDashing (pstate P1 bumpRoom)" "speedMult (pstate P1 bumpRoom) \<le> 1"
    "\<not> isDashing (pstate P2 bumpRoom)" "speedMult (pstate P2 bumpRoom) \<le> 1"
    "\<not> isVesselActive (pstate P1 bumpRoom)" "\<not> isVesselActive (pstate P2 bumpRoom)"
    "\<not> isGrid (pstate P1 bumpRoom)" "\<not> isEchoFrozen (pstate P1 bumpRoom)"
    "\<not> isGrid (pstate P2 bumpRoom)" "\<not> isEchoFrozen (pstate P2 bumpRoom)"
    "mass (pstate P1 bumpRoom) > 0" "mass (pstate P2 bumpRoom) > 0"
    by (simp_all add: createPlayerState_def)
  have m: "mass (pstate P1 bumpRoom) = 3" "mass (pstate P2 bumpRoom) = 1"
    "p_vx (pstate P1 bumpRoom) = 0" "p_vy (pstate P1 bumpRoom) = 0"
    "p_vx (pstate P2 bumpRoom) = 0" "p_vy (pstate P2 bumpRoom) = 0"
    by (simp_all add: createPlayerState_def)
  note t = bump_velocity_change [OF bumpRoom_hits h bumpRoom_angle [symmetric] refl refl]
  show ?thesis
    using t bumpRoom_hits h by (simp add: m bumpForce_def createPlayerState_def)
qed

text \<open>
  The claim as stated fails in \<open>bumpRoom\<close> (masses 3 and 1): the velocity of player 1
  changes by \<open>8 / 9\<close>, not by \<open>8 * m2 / m1 = 8 / 3\<close>.
\<close>

theorem bump_impulse_counterexample:
  "sqrt ((p_vx (pstate P1 (resolveCollision bumpRoom)) - p_vx (pstate P1 bumpRoom))\<^sup>2
         + (p_vy (pstate P1 (resolveCollision bumpRoom)) - p_vy (pstate P1 bumpRoom))\<^sup>2)
     \<noteq> bumpForce * mass (pstate P2 bumpRoom) / mass (pstate P1 bumpRoom)"
proof -
  have h: "\<not> isDashing (pstate P1 bumpRoom)" "speedMult (pstate P1 bumpRoom) \<le> 1"
    "\<not> isDashing (pstate P2 bumpRoom)" "speedMult (pstate P2 bumpRoom) \<le> 1"
    by (simp_all add: createPlayerState_def)
  note step = resolveCollision_is_bump [OF bumpRoom_hits h, of P1, unfolded bumpRoom_angle]
  have "pstate P1 (resolveCollision bumpRoom) =
          (pstate P1 bumpRoom)\<lparr>p_x := 500 - 37 / 2, p_vx := - (8 / 9), p_vy := 0\<rparr>"
    apply (simp only: step)
    apply (simp add: bump_def applyImpact_def Let_def separatePlayers_def createPlayerState_def bumpForce_def)
    done
  then have a: "sqrt ((p_vx (pstate P1 (resolveCollision bumpRoom)) - p_vx (pstate P1 bumpRoom))\<^sup>2
         + (p_vy (pstate P1 (resolveCollision bumpRoom)) - p_vy (pstate P1 bumpRoom))\<^sup>2) = 8 / 9"
    by (simp add: createPlayerState_def)
  have b: "bumpForce * mass (pstate P2 bumpRoom) / mass (pstate P1 bumpRoom) = 8 / 3"
    by (simp add: createPlayerState_def bumpForce_def)
  show ?thesis
    unfolding a b by simp
qed

subsection \<open>Room fields through the player and state updates\<close>

lemma modP_room [simp]:
  "pending (modP i f r) = pending r"
  "abilityTimers (modP i f r) = abilityTimers r"
  "nextTimer (modP i f r) = nextTimer r"
  "clock (modP i f r) = clock r"
  "sent (modP i f r) = sent r"
  "roundPaused (modP i f r) = roundPaused r"
  "players (modP i f r) = players r"
  "r_gameMode (modP i f r) = r_gameMode r"
  by (simp_all add: modP_def)

lemma modS_room [simp]:
  "pending (modS g r) = pending r"
  "abilityTimers (modS g r) = abilityTimers r"
  "nextTimer (modS g r) = nextTimer r"
  "clock (modS g r) = clock r"
  "sent (modS g r) = sent r"
  "roundPaused (modS g r) = roundPaused r"
  "players (modS g r) = players r"
  "r_gameMode (modS g r) = r_gameMode r"
  by (simp_all add: modS_def)

subsection \<open>Echo: buffering and replay\<close>

lemma applyImpact_frozen:
  assumes "isEchoFrozen (pstate i r)" and "\<not> isGrid (pstate i r)"
  shows "applyImpact i a f r =
           modP i (\<lambda>p. p\<lparr>echoHistory := echoHistory p @
                             [\<lparr>e_angle = a, e_force = f, e_time = clock r\<rparr>]\<rparr>) r"
  using assms by (simp add: applyImpact_def)

lemma applyImpact_grid: "isGrid (pstate i r) \<Longrightarrow> applyImpact i a f r = r"
  by (simp add: applyImpact_def)

lemma scheduleReplays_pstate [simp]: "pstate i (scheduleReplays j st hs r) = pstate i r"
  by (induction hs arbitrary: r) simp_all

lemma scheduleReplays_clock [simp]: "clock (scheduleReplays j st hs r) = clock r"
  by (induction hs arbitrary: r) (simp_all add: setTimeout_def)

lemma scheduleReplays_pending:
  "map t_cb (pending (scheduleReplays j st hs r)) = map t_cb (pending r) @ map (EchoReplay j) hs"
  "map t_due (pending (scheduleReplays j st hs r)) =
     map t_due (pending r) @ map (\<lambda>e. clock r + min 1000 ((e_time e - st) / 3)) hs"
  by (induction hs arbitrary: r) (simp_all add: setTimeout_def)

lemma unfreeze_effect:
  "pstate j (runCallback (EchoUnfreeze j) h r) = (pstate j r)\<lparr>isEchoFrozen := False, echoHistory := []\<rparr>"
  "map t_cb (pending (runCallback (EchoUnfreeze j) h r)) =
     map t_cb (pending r) @ map (EchoReplay j) (echoHistory (pstate j r))"
  by (simp_all add: Let_def scheduleReplays_pending)

lemma replay_effect:
  "\<not> isGrid (pstate j r) \<Longrightarrow>
     pstate j (runCallback (EchoReplay j e) h r) =
       (pstate j r)\<lparr>p_vx := p_vx (pstate j r) + cos (e_angle e) * e_force e,
                     p_vy := p_vy (pstate j r) + sin (e_angle e) * e_force e\<rparr>"
  "isGrid (pstate j r) \<Longrightarrow> runCallback (EchoReplay j e) h r = r"
  by simp_all

lemma replay_magnitude:
  "\<not> isGrid (pstate j r) \<Longrightarrow> velChange j r (runCallback (EchoReplay j e) h r) = \<bar>e_force e\<bar>"
  using impulse_magnitude [of "e_angle e" "e_force e"] by (simp add: velChange_def)

lemma replaySum_eq:
  "\<not> isGrid (pstate j r) \<Longrightarrow> replaySum j es r = (\<Sum>e\<leftarrow>es. \<bar>e_force e\<bar>)"
proof (induction es arbitrary: r)
  case Nil
  then show ?case by simp
next
  case (Cons e es)
  have g: "\<not> isGrid (pstate j (runCallback (EchoReplay j e) 0 r))"
    using Cons.prems by simp
  show ?case
    using Cons.IH [OF g] replay_magnitude [OF Cons.prems, of e 0]
    by (simp add: Let_def del: runCallback.simps)
qed

lemma replaySum_grid: "isGrid (pstate j r) \<Longrightarrow> replaySum j es r = 0"
  by (induction es) (simp_all add: velChange_def)

lemma pstate_echoFrozenRoom [simp]:
  "pstate P2 echoFrozenRoom =
     (createPlayerState ''#ff0077'' ''RED'' 750)\<lparr>isEchoFrozen := True, selectedAbility := Some ''GRID''\<rparr>"
  by (simp add: echoFrozenRoom_def)

lemma echoFrozenRoom_fields [simp]:
  "clock echoFrozenRoom = 1500" "r_gameMode echoFrozenRoom = Competitive"
  "roundPaused echoFrozenRoom = False"
  by (simp_all add: echoFrozenRoom_def duel_eq)

lemma pstate_frozenGridRoom [simp]:
  "pstate P2 frozenGridRoom =
     (createPlayerState ''#ff0077'' ''RED'' 750)
       \<lparr>isEchoFrozen := True, selectedAbility := Some ''GRID'', isGrid := True,
        gridDirection := (- 1, 0), abilityCooldown := 600\<rparr>"
  by (simp add: frozenGridRoom_def onAbility_def handleAbility_def newPlayer_def
        applyPowerUp_def createPlayerState_def COMP_COOLDOWN_def)

text \<open>
  C3, as amended. An impact applied to an echo-frozen player that is not grid-locked
  leaves the velocity unchanged and is appended to the buffer with the current time; a
  grid-locked player, echo-frozen or not, ignores the impact and nothing is buffered.
  When the freeze ends, the unfreeze closure queues one replay closure per buffered
  impact, in the order of the buffer, and empties the buffer. Replays that run while
  the player is not grid-locked change the velocity by exactly the buffered forces (the
  sum of the replayed magnitudes is the sum of the buffered ones); replays that run
  while the player is grid-locked change nothing.
\<close>

theorem echo_buffer_replay:
  "(isEchoFrozen (pstate i r) \<and> \<not> isGrid (pstate i r) \<longrightarrow>
      applyImpact i a f r =
        modP i (\<lambda>p. p\<lparr>echoHistory := echoHistory p @
                          [\<lparr>e_angle = a, e_force = f, e_time = clock r\<rparr>]\<rparr>) r
      \<and> p_vx (pstate i (applyImpact i a f r)) = p_vx (pstate i r)
      \<and> p_vy (pstate i (applyImpact i a f r)) = p_vy (pstate i r))
   \<and> (isGrid (pstate i r) \<longrightarrow> applyImpact i a f r = r)
   \<and> map t_cb (pending (runCallback (EchoUnfreeze i) h r)) =
       map t_cb (pending r) @ map (EchoReplay i) (echoHistory (pstate i r))
   \<and> echoHistory (pstate i (runCallback (EchoUnfreeze i) h r)) = []
   \<and> \<not> isEchoFrozen (pstate i (runCallback (EchoUnfreeze i) h r))
   \<and> (\<not> isGrid (pstate i r) \<longrightarrow> replaySum i es r = (\<Sum>e\<leftarrow>es. \<bar>e_force e\<bar>))
   \<and> (isGrid (pstate i r) \<longrightarrow> replaySum i es r = 0)"
  by (simp add: applyImpact_frozen applyImpact_grid unfreeze_effect replaySum_eq replaySum_grid
        del: runCallback.simps)

theorem echo_buffer_replay_witness:
  "isEchoFrozen (pstate P2 echoFrozenRoom) \<and> \<not> isGrid (pstate P2 echoFrozenRoom)
   \<and> echoHistory (pstate P2 (applyImpact P2 0 28 echoFrozenRoom))
       = [\<lparr>e_angle = 0, e_force = 28, e_time = 1500\<rparr>]
   \<and> p_vx (pstate P2 (applyImpact P2 0 28 echoFrozenRoom)) = 0
   \<and> replaySum P2 [\<lparr>e_angle = 0, e_force = 28, e_time = 1500\<rparr>,
                    \<lparr>e_angle = pi, e_force = 8, e_time = 1800\<rparr>] echoFrozenRoom = 36
   \<and> isGrid (pstate P2 frozenGridRoom)
   \<and> applyImpact P2 0 28 frozenGridRoom = frozenGridRoom"
proof -
  have a: "isEchoFrozen (pstate P2 echoFrozenRoom)" "\<not> isGrid (pstate P2 echoFrozenRoom)"
    "isGrid (pstate P2 frozenGridRoom)"
    by (simp_all add: createPlayerState_def)
  show ?thesis
    using a
      echo_buffer_replay [of P2 echoFrozenRoom 0 28 0
        "[\<lparr>e_angle = 0, e_force = 28, e_time = 1500\<rparr>, \<lparr>e_angle = pi, e_force = 8, e_time = 1800\<rparr>]"]
      echo_buffer_replay [of P2 frozenGridRoom 0 28 0 "[]"]
    by (simp add: createPlayerState_def del: runCallback.simps replaySum.simps)
qed

text \<open>
  The claim as stated fails in \<open>frozenGridRoom\<close>: player 2 is echo-frozen, yet an impact
  is not appended to the buffer, and a buffered impact replayed there is dropped.
\<close>

theorem echo_buffer_counterexample:
  "isEchoFrozen (pstate P2 frozenGridRoom)
   \<and> echoHistory (pstate P2 (applyImpact P2 0 28 frozenGridRoom))
       \<noteq> echoHistory (pstate P2 frozenGridRoom)
           @ [\<lparr>e_angle = 0, e_force = 28, e_time = clock frozenGridRoom\<rparr>]
   \<and> replaySum P2 [\<lparr>e_angle = 0, e_force = 28, e_time = 1500\<rparr>] frozenGridRoom
       \<noteq> (\<Sum>e\<leftarrow>[\<lparr>e_angle = 0, e_force = 28, e_time = 1500\<rparr>]. \<bar>e_force e\<bar>)"
  by (simp add: applyImpact_grid replaySum_grid createPlayerState_def del: replaySum.simps)

subsection \<open>Mirages\<close>

lemma mirageMove_fields [simp]:
  "m_life (mirageMove m) = m_life m - 1 / 60"
  "m_id (mirageMove m) = m_id m"
  "m_owner (mirageMove m) = m_owner m"
  "hitCooldown (mirageMove m) = hitCooldown m"
  by (simp_all add: mirageMove_def Let_def)

lemma mirageStep_hit:
  "mirageStep m r = (m', True, r') \<Longrightarrow> hitCooldown m' = Some 30"
  by (auto simp add: mirageStep_def Let_def split: if_splits)

lemma mirageStep_cooling:
  assumes "hitCooldown m = Some c" and "2 \<le> c" and "mirageStep m r = (m', hit, r')"
  shows "\<not> hit \<and> hitCooldown m' = Some (c - 1)"
  using assms by (auto simp add: mirageStep_def Let_def split: if_splits)

lemma mirageStep_life:
  "mirageStep m r = (m', hit, r') \<Longrightarrow> m_life m' = m_life m - 1 / 60 \<and> m_id m' = m_id m"
  by (auto simp add: mirageStep_def Let_def split: if_splits)

lemma mirageHits_quiet:
  "hitCooldown m = Some c \<Longrightarrow> True \<notin> set (take (nat c - 1) (mirageHits m rs))"
proof (induction rs arbitrary: m c)
  case Nil
  then show ?case by simp
next
  case (Cons r rs)
  obtain m' hit r' where st: "mirageStep m r = (m', hit, r')"
    by (cases "mirageStep m r") auto
  show ?case
  proof (cases "2 \<le> c")
    case True
    from mirageStep_cooling [OF Cons.prems True st]
    have nh: "\<not> hit" and c': "hitCooldown m' = Some (c - 1)" by simp_all
    have n: "nat c - 1 = Suc (nat (c - 1) - 1)" using True by simp
    have hs: "mirageHits m (r # rs) = False # (if m_life m' \<le> 0 then [] else mirageHits m' rs)"
      using st nh by simp
    show ?thesis
      unfolding n hs using Cons.IH [OF c'] by auto
  next
    case False
    then have "nat c - 1 = 0" by simp
    then show ?thesis by simp
  qed
qed

lemma count_take_mono: "length (filter P (take n xs)) \<le> length (filter P (take (Suc n) xs))"
proof (induction xs arbitrary: n)
  case Nil
  then show ?case by simp
next
  case (Cons x xs)
  then show ?case by (cases n) auto
qed

lemma mirageHits_window:
  "length (filter (\<lambda>h. h) (take 30 (drop k (mirageHits m rs)))) \<le> 1"
proof (induction rs arbitrary: m k)
  case Nil
  then show ?case by simp
next
  case (Cons r rs)
  obtain m' hit r' where st: "mirageStep m r = (m', hit, r')"
    by (cases "mirageStep m r") auto
  define tl where "tl = (if m_life m' \<le> 0 then [] else mirageHits m' rs)"
  have hs: "mirageHits m (r # rs) = hit # tl"
    using st by (simp add: tl_def)
  have ih: "length (filter (\<lambda>h. h) (take 30 (drop j tl))) \<le> 1" for j
    using Cons.IH [of j m'] by (auto simp add: tl_def)
  show ?case
  proof (cases k)
    case (Suc j)
    then show ?thesis using ih [of j] by (simp add: hs del: mirageHits.simps)
  next
    case 0
    show ?thesis
    proof (cases hit)
      case True
      with st have "hitCooldown m' = Some 30" by (simp add: mirageStep_hit)
      from mirageHits_quiet [OF this, of rs]
      have "True \<notin> set (take 29 tl)" by (simp add: tl_def)
      then have "filter (\<lambda>h. h) (take 29 tl) = []"
        by (auto simp add: filter_empty_conv)
      then show ?thesis using 0 True by (simp add: hs del: mirageHits.simps)
    next
      case False
      have "length (filter (\<lambda>h. h) (take 29 tl)) \<le> length (filter (\<lambda>h. h) (take 30 tl))"
        using count_take_mono [of "\<lambda>h. h" 29 tl] by simp
      also have "\<dots> \<le> 1" using ih [of 0] by simp
      finally show ?thesis using 0 False by (simp add: hs del: mirageHits.simps)
    qed
  qed
qed

lemma mirageLoop_kept:
  "map m_id (fst (mirageLoop ms r)) = map m_id (filter (\<lambda>m. \<not> m_life m - 1 / 60 \<le> 0) ms)"
proof (induction ms arbitrary: r)
  case Nil
  then show ?case by simp
next
  case (Cons m ms)
  obtain m' hit r' where st: "mirageStep m r = (m', hit, r')"
    by (cases "mirageStep m r") auto
  from mirageStep_life [OF st] have l: "m_life m' = m_life m - 1 / 60" and i: "m_id m' = m_id m"
    by simp_all
  show ?case
    using Cons.IH [of r'] st l i by (simp add: split_beta)
qed

lemma updateMirages_kept:
  "map m_id (mirages (gameState (updateMirages r))) =
     map m_id (filter (\<lambda>m. \<not> m_life m - 1 / 60 \<le> 0) (mirages (gameState r)))"
proof -
  have "mirages (gameState (updateMirages r)) = rev (fst (mirageLoop (rev (mirages (gameState r))) r))"
    by (simp add: updateMirages_def split_beta modS_def)
  then show ?thesis
    by (simp add: rev_map [symmetric] mirageLoop_kept rev_filter [symmetric])
qed

lemma resting_step:
  "mirageStep (restingMirage\<lparr>m_life := l, hitCooldown := c\<rparr>) (duel Casual) =
     (restingMirage\<lparr>m_life := l - 1 / 60,
        hitCooldown := Some (if (case c of None \<Rightarrow> 0 | Some n \<Rightarrow> n) \<le> 1 then 30
                             else (case c of None \<Rightarrow> 0 | Some n \<Rightarrow> n) - 1)\<rparr>,
      (case c of None \<Rightarrow> 0 | Some n \<Rightarrow> n) \<le> 1,
      if (case c of None \<Rightarrow> 0 | Some n \<Rightarrow> n) \<le> 1
      then modP P2 (\<lambda>p. p\<lparr>p_vx := p_vx p + 15, p_vy := p_vy p\<rparr>) (duel Casual)
      else duel Casual)"
  by (cases c)
     (auto simp add: mirageStep_def mirageMove_def restingMirage_def Let_def CANVAS_WIDTH_def
        CANVAS_HEIGHT_def createPlayerState_def atan2_def)

lemma resting_hits:
  "mirageHits (restingMirage\<lparr>m_life := l, hitCooldown := c\<rparr>) (duel Casual # rs) =
     ((case c of None \<Rightarrow> 0 | Some n \<Rightarrow> n) \<le> 1)
     # (if l - 1 / 60 \<le> 0 then []
        else mirageHits
               (restingMirage\<lparr>m_life := l - 1 / 60,
                  hitCooldown := Some (if (case c of None \<Rightarrow> 0 | Some n \<Rightarrow> n) \<le> 1 then 30
                                       else (case c of None \<Rightarrow> 0 | Some n \<Rightarrow> n) - 1)\<rparr>) rs)"
  by (simp add: resting_step)

lemma resting_start: "restingMirage = restingMirage\<lparr>m_life := 5, hitCooldown := None\<rparr>"
  by (simp add: restingMirage_def)

lemma resting_31:
  "mirageHits restingMirage (replicate 31 (duel Casual)) = True # replicate 29 False @ [True]"
  apply (subst resting_start)
  apply (simp add: numeral_eq_Suc resting_hits del: mirageHits.simps(2))
  done

subsection \<open>Quiet steps compose\<close>

lemma grows_iff: "grows P a b \<longleftrightarrow> (\<exists>e. b = a @ e \<and> list_all P e)"
proof
  assume "grows P a b"
  then have "b = a @ drop (length a) b \<and> list_all P (drop (length a) b)"
    by (metis append_take_drop_id grows_def)
  then show "\<exists>e. b = a @ e \<and> list_all P e" by blast
next
  assume "\<exists>e. b = a @ e \<and> list_all P e"
  then show "grows P a b" by (auto simp add: grows_def)
qed

lemma grows_refl [simp]: "grows P a a"
  by (simp add: grows_def)

lemma grows_trans: "grows P a b \<Longrightarrow> grows P b c \<Longrightarrow> grows P a c"
  by (auto simp add: grows_iff)

lemma grows_snoc: "grows P a b \<Longrightarrow> P e \<Longrightarrow> grows P a (b @ [e])"
  by (auto simp add: grows_iff)

lemma pkeep_refl [simp]: "pkeep p p"
  by (simp add: pkeep_def)

lemma pkeep_trans: "pkeep p q \<Longrightarrow> pkeep q s \<Longrightarrow> pkeep p s"
  by (simp add: pkeep_def)

lemma quiet_refl [simp]: "quiet r r"
  by (simp add: quiet_def)

lemma quietD:
  assumes "quiet r x"
  shows "pkeep (pstate P1 r) (pstate P1 x)" and "pkeep (pstate P2 r) (pstate P2 x)"
    and "gameActive (gameState x) = gameActive (gameState r)"
    and "winner (gameState x) = winner (gameState r)"
    and "gameMode (gameState x) = gameMode (gameState r)"
    and "isPaused (gameState x) = isPaused (gameState r)"
    and "roundPaused x = roundPaused r" and "players x = players r" and "clock x = clock r"
    and "r_gameMode x = r_gameMode r"
    and "grows (\<lambda>t. quietCb (t_cb t)) (pending r) (pending x)"
    and "grows quietMsg (sent r) (sent x)"
  using assms unfolding quiet_def by blast+

lemma quietI:
  assumes "pkeep (pstate P1 r) (pstate P1 x)" and "pkeep (pstate P2 r) (pstate P2 x)"
    and "gameActive (gameState x) = gameActive (gameState r)"
    and "winner (gameState x) = winner (gameState r)"
    and "gameMode (gameState x) = gameMode (gameState r)"
    and "isPaused (gameState x) = isPaused (gameState r)"
    and "roundPaused x = roundPaused r" and "players x = players r" and "clock x = clock r"
    and "r_gameMode x = r_gameMode r"
    and "grows (\<lambda>t. quietCb (t_cb t)) (pending r) (pending x)"
    and "grows quietMsg (sent r) (sent x)"
  shows "quiet r x"
  using assms unfolding quiet_def by blast


lemma quiet_trans:
  assumes "quiet r x" and "quiet x y"
  shows "quiet r y"
proof (rule quietI)
  show "pkeep (pstate P1 r) (pstate P1 y)"
    using quietD(1) [OF assms(1)] quietD(1) [OF assms(2)] by (rule pkeep_trans)
  show "pkeep (pstate P2 r) (pstate P2 y)"
    using quietD(2) [OF assms(1)] quietD(2) [OF assms(2)] by (rule pkeep_trans)
  show "grows (\<lambda>t. quietCb (t_cb t)) (pending r) (pending y)"
    using quietD(11) [OF assms(1)] quietD(11) [OF assms(2)] by (rule grows_trans)
  show "grows quietMsg (sent r) (sent y)"
    using quietD(12) [OF assms(1)] quietD(12) [OF assms(2)] by (rule grows_trans)
qed (simp_all add: quietD(3-10) [OF assms(1)] quietD(3-10) [OF assms(2)])


lemma quiet_step: "quiet x y \<Longrightarrow> quiet r x \<Longrightarrow> quiet r y"
  by (rule quiet_trans)

lemma quiet_modP_self:
  assumes "\<And>p. pkeep p (g p)"
  shows "quiet x (modP i g x)"
proof (rule quietI)
  show "pkeep (pstate P1 x) (pstate P1 (modP i g x))" "pkeep (pstate P2 x) (pstate P2 (modP i g x))"
    using assms by simp_all
  show "gameActive (gameState (modP i g x)) = gameActive (gameState x)"
    "winner (gameState (modP i g x)) = winner (gameState x)"
    "gameMode (gameState (modP i g x)) = gameMode (gameState x)"
    "isPaused (gameState (modP i g x)) = isPaused (gameState x)"
    by (cases i; simp add: modP_def)+
qed simp_all

lemma quiet_modS_self: "(\<And>s. skeep s (g s)) \<Longrightarrow> quiet x (modS g x)"
proof (rule quietI)
  assume k: "\<And>s. skeep s (g s)"
  have "getP i (g (gameState x)) = pstate i x" for i
    using k [of "gameState x"] unfolding pstate_def
    by (cases i) (simp_all add: skeep_def del: getP_gameState)
  then show "pkeep (pstate P1 x) (pstate P1 (modS g x))" "pkeep (pstate P2 x) (pstate P2 (modS g x))"
    by simp_all
  show "gameActive (gameState (modS g x)) = gameActive (gameState x)"
    "winner (gameState (modS g x)) = winner (gameState x)"
    "gameMode (gameState (modS g x)) = gameMode (gameState x)"
    "isPaused (gameState (modS g x)) = isPaused (gameState x)"
    using k [of "gameState x"] by (simp_all add: skeep_def modS_def)
qed simp_all

lemma quiet_modP: "(\<And>p. pkeep p (g p)) \<Longrightarrow> quiet r x \<Longrightarrow> quiet r (modP i g x)"
  by (rule quiet_trans [OF _ quiet_modP_self])

lemma quiet_modS: "(\<And>s. skeep s (g s)) \<Longrightarrow> quiet r x \<Longrightarrow> quiet r (modS g x)"
  by (rule quiet_trans [OF _ quiet_modS_self])

lemma pstate_room_upd_more [simp]:
  "pstate i (r\<lparr>sent := a\<rparr>) = pstate i r"
  "pstate i (r\<lparr>nextTimer := b\<rparr>) = pstate i r"
  "pstate i (r\<lparr>r_gameMode := c\<rparr>) = pstate i r"
  by (simp_all add: pstate_def del: getP_gameState)

lemma quiet_setTimeout: "quietCb cb \<Longrightarrow> quiet r x \<Longrightarrow> quiet r (setTimeout cb d x)"
proof (rule quiet_trans)
  assume "quietCb cb"
  then show "quiet x (setTimeout cb d x)"
    by (intro quietI) (simp_all add: setTimeout_def grows_iff)
qed

lemma quiet_trackTimer: "quietCb cb \<Longrightarrow> quiet r x \<Longrightarrow> quiet r (trackTimer cb d x)"
proof (rule quiet_trans)
  assume "quietCb cb"
  then show "quiet x (trackTimer cb d x)"
    by (intro quietI) (simp_all add: trackTimer_def grows_iff)
qed

lemma quiet_broadcast: "quietMsg msg \<Longrightarrow> quiet r x \<Longrightarrow> quiet r (broadcast msg x)"
proof (rule quiet_trans)
  assume "quietMsg msg"
  then show "quiet x (broadcast msg x)"
    by (intro quietI) (simp_all add: broadcast_def grows_iff)
qed

lemma quiet_counters:
  "quiet r x \<Longrightarrow> quiet r (x\<lparr>voidWellIdCounter := k\<rparr>)"
  "quiet r x \<Longrightarrow> quiet r (x\<lparr>mirageIdCounter := k\<rparr>)"
  "quiet r x \<Longrightarrow> quiet r (x\<lparr>drawn := k\<rparr>)"
  by (simp_all add: quiet_def pstate_def del: getP_gameState)

lemma quiet_if:
  "(c \<Longrightarrow> quiet r a) \<Longrightarrow> (\<not> c \<Longrightarrow> quiet r b) \<Longrightarrow> quiet r (if c then a else b)"
  by simp

lemma quiet_Let_room:
  "quiet r a \<Longrightarrow> (\<And>x. quiet r x \<Longrightarrow> quiet r (f x)) \<Longrightarrow> quiet r (Let a f)"
  for a :: room
  by simp

lemma quiet_Let_val: "(\<And>x. quiet r (f x)) \<Longrightarrow> quiet r (Let a f)"
  by simp

lemmas quiet_Let_vals =
  quiet_Let_val [where 'a = real] quiet_Let_val [where 'a = bool] quiet_Let_val [where 'a = pid]
  quiet_Let_val [where 'a = nat] quiet_Let_val [where 'a = int]
  quiet_Let_val [where 'a = "real \<times> real"] quiet_Let_val [where 'a = player_state]
  quiet_Let_val [where 'a = mirage_state] quiet_Let_val [where 'a = void_well_state]
  quiet_Let_val [where 'a = "player option"]

lemma quiet_case_prod: "(\<And>a b. quiet r (f a b)) \<Longrightarrow> quiet r (case p of (a, b) \<Rightarrow> f a b)"
  by (cases p) simp

lemma quiet_case_option:
  "quiet r a \<Longrightarrow> (\<And>v. quiet r (f v)) \<Longrightarrow> quiet r (case v of None \<Rightarrow> a | Some w \<Rightarrow> f w)"
  by (cases v) simp_all

lemmas quiet_rules =
  quiet_refl quiet_if quiet_Let_room quiet_Let_vals quiet_case_prod quiet_case_option
  quiet_modP quiet_modS quiet_setTimeout quiet_trackTimer quiet_broadcast quiet_counters

subsection \<open>The quiet parts of a tick\<close>

lemma quiet_applyImpact: "quiet r x \<Longrightarrow> quiet r (applyImpact i a f x)"
  unfolding applyImpact_def by (intro quiet_rules; (assumption | simp add: pkeep_def))

lemma quiet_triggerRecoil: "quiet r x \<Longrightarrow> quiet r (triggerRecoil i x)"
  unfolding triggerRecoil_def by (intro quiet_rules; (assumption | simp add: pkeep_def))

lemma quiet_pulsePowerUps: "quiet r x \<Longrightarrow> quiet r (pulsePowerUps x)"
  unfolding pulsePowerUps_def by (intro quiet_rules; (assumption | simp add: skeep_def))

lemma quiet_infinityField: "quiet r x \<Longrightarrow> quiet r (infinityField ow tg x)"
  unfolding infinityField_def by (intro quiet_rules; (assumption | simp add: pkeep_def))

lemma quiet_integrateVelocity: "quiet r x \<Longrightarrow> quiet r (integrateVelocity i k x)"
  unfolding integrateVelocity_def by (intro quiet_rules; (assumption | simp add: pkeep_def))

lemma quiet_movePlayer: "quiet r x \<Longrightarrow> quiet r (movePlayer i x)"
  unfolding movePlayer_def by (intro quiet_rules; (assumption | simp add: pkeep_def))

lemma quiet_shieldBounce: "quiet r x \<Longrightarrow> quiet r (shieldBounce i x)"
  unfolding shieldBounce_def by (intro quiet_rules; (assumption | simp add: pkeep_def))

lemma quiet_separatePlayers: "quiet r x \<Longrightarrow> quiet r (separatePlayers a ov x)"
  unfolding separatePlayers_def by (intro quiet_rules; (assumption | simp add: pkeep_def))

lemma quiet_decayEffects: "quiet r x \<Longrightarrow> quiet r (decayEffects x)"
  unfolding decayEffects_def by (intro quiet_rules; (assumption | simp add: skeep_def))

lemma quiet_cooldownTick: "quiet r x \<Longrightarrow> quiet r (cooldownTick i x)"
proof (rule quiet_trans)
  show "quiet x (cooldownTick i x)"
    unfolding cooldownTick_def
    by (cases i; intro quietI; simp add: pkeep_def modP_def pstate_def del: getP_gameState)+
qed

lemma quiet_mirageStep: "quiet r x \<Longrightarrow> quiet r (snd (snd (mirageStep m x)))"
  unfolding mirageStep_def Let_def
  by (simp add: quiet_modP pkeep_def)

lemma quiet_mirageLoop: "quiet r x \<Longrightarrow> quiet r (snd (mirageLoop ms x))"
proof (induction ms arbitrary: x)
  case Nil
  then show ?case by simp
next
  case (Cons m ms)
  show ?case
    using Cons.IH [OF quiet_mirageStep [OF Cons.prems, of m]]
    by (simp add: split_beta)
qed

lemma quiet_updateMirages: "quiet r x \<Longrightarrow> quiet r (updateMirages x)"
  unfolding updateMirages_def
  by (simp add: split_beta quiet_modS quiet_mirageLoop skeep_def)

lemma quiet_voidWellStep: "quiet r x \<Longrightarrow> quiet r (snd (voidWellStep v x))"
proof -
  assume q: "quiet r x"
  have "quiet r (snd (voidWellStep v x))"
    unfolding voidWellStep_def Let_def
    by (simp add: quiet_modP quiet_trackTimer q pkeep_def COMP_COOLDOWN_def)
  then show ?thesis .
qed

lemma quiet_voidWellLoop: "quiet r x \<Longrightarrow> quiet r (snd (voidWellLoop vs x))"
proof (induction vs arbitrary: x)
  case Nil
  then show ?case by simp
next
  case (Cons v vs)
  show ?case
    using Cons.IH [OF quiet_voidWellStep [OF Cons.prems, of v]]
    by (simp add: split_beta)
qed

lemma quiet_updateVoidWells: "quiet r x \<Longrightarrow> quiet r (updateVoidWells x)"
  unfolding updateVoidWells_def
  by (simp add: split_beta quiet_modS quiet_voidWellLoop skeep_def)

lemmas quiet_rules2 = quiet_rules quiet_applyImpact quiet_triggerRecoil

lemma quiet_blockedDash1: "quiet r x \<Longrightarrow> quiet r (fst (blockedDash1 a x))"
  unfolding blockedDash1_def Let_def fst_conv
  by (intro quiet_rules2; (assumption | simp add: pkeep_def skeep_def))

lemma quiet_blockedDash2: "quiet r x \<Longrightarrow> quiet r (fst (blockedDash2 a x))"
  unfolding blockedDash2_def Let_def fst_conv
  by (intro quiet_rules2; (assumption | simp add: pkeep_def skeep_def))

lemma quiet_dashClash: "quiet r x \<Longrightarrow> quiet r (fst (dashClash a x))"
  unfolding dashClash_def Let_def fst_conv
  by (intro quiet_rules2; (assumption | simp add: pkeep_def skeep_def))

lemma quiet_dashHit1: "quiet r x \<Longrightarrow> quiet r (fst (dashHit1 a x))"
  unfolding dashHit1_def Let_def fst_conv
  by (intro quiet_rules2; (assumption | simp add: pkeep_def skeep_def COMP_COOLDOWN_def))

lemma quiet_dashHit2: "quiet r x \<Longrightarrow> quiet r (fst (dashHit2 a x))"
  unfolding dashHit2_def Let_def fst_conv
  by (intro quiet_rules2; (assumption | simp add: pkeep_def skeep_def COMP_COOLDOWN_def))

lemma quiet_bump: "quiet r x \<Longrightarrow> quiet r (fst (bump a x))"
  unfolding bump_def Let_def fst_conv
  by (intro quiet_rules2; (assumption | simp add: pkeep_def skeep_def))

lemma quiet_resolveCollision: "quiet r x \<Longrightarrow> quiet r (resolveCollision x)"
proof -
  assume q: "quiet r x"
  have s: "quiet r (separatePlayers a ov x)" for a ov
    by (rule quiet_separatePlayers [OF q])
  show ?thesis
    unfolding resolveCollision_def Let_def split_beta
    by (intro quiet_rules; (rule q)?;
        simp add: skeep_def quiet_blockedDash1 quiet_blockedDash2 quiet_dashClash quiet_dashHit1
          quiet_dashHit2 quiet_bump s)
qed

lemma quiet_spawnMirage: "quiet r x \<Longrightarrow> quiet r (spawnMirage i x)"
proof (rule quiet_trans)
  show "quiet x (spawnMirage i x)"
    unfolding spawnMirage_def nextRandom_def Let_def split_conv
    by (intro quiet_rules; simp add: skeep_def)
qed

lemma quiet_performBlitzDash: "quiet r x \<Longrightarrow> quiet r (performBlitzDash i j bp n x)"
  unfolding performBlitzDash_def
  by (intro quiet_rules; (assumption | simp add: pkeep_def))

lemma quiet_applyPowerUp: "quiet r x \<Longrightarrow> quiet r (applyPowerUp i j ty x)"
  unfolding applyPowerUp_def
  by (intro quiet_rules quiet_spawnMirage quiet_performBlitzDash;
      (assumption | simp add: pkeep_def skeep_def))

lemma quiet_pickupLoop: "quiet r x \<Longrightarrow> quiet r (snd (pickupLoop i j pus x))"
proof (induction pus arbitrary: x)
  case Nil
  then show ?case by simp
next
  case (Cons pu pus)
  have a: "quiet r (broadcast (PowerupCollected (pu_id pu) (name (pstate i (applyPowerUp i j (pu_type pu) x))))
                      (applyPowerUp i j (pu_type pu) x))"
    by (intro quiet_broadcast quiet_applyPowerUp Cons.prems) simp
  show ?case
    using Cons.IH [OF a] Cons.IH [OF Cons.prems]
    by (simp add: Let_def split_beta)
qed

lemma quiet_collectPowerUps: "quiet r x \<Longrightarrow> quiet r (collectPowerUps i j x)"
  unfolding collectPowerUps_def
  by (simp add: split_beta quiet_modS quiet_pickupLoop skeep_def)

subsection \<open>Round reset and the out-of-bounds test\<close>

lemma other_if [simp]: "(if i = P1 then P2 else P1) = other i"
  by (cases i) simp_all

lemma other_neq [simp]: "other i \<noteq> i" "i \<noteq> other i"
  by (cases i; simp)+

lemma fold_clearTimeout:
  "fold clearTimeout hs r = r\<lparr>pending := filter (\<lambda>t. t_id t \<notin> set hs) (pending r)\<rparr>"
proof (induction hs arbitrary: r)
  case Nil
  then show ?case by simp
next
  case (Cons h hs)
  have "fold clearTimeout (h # hs) r = fold clearTimeout hs (clearTimeout h r)"
    by simp
  also have "\<dots> = (clearTimeout h r)\<lparr>pending := filter (\<lambda>t. t_id t \<notin> set hs) (pending (clearTimeout h r))\<rparr>"
    by (rule Cons.IH)
  also have "\<dots> = r\<lparr>pending := filter (\<lambda>t. t_id t \<notin> set (h # hs)) (pending r)\<rparr>"
    by (simp add: clearTimeout_def conj_commute)
  finally show ?case .
qed

lemma resetRound_pstate:
  "pstate P1 (resetRound r) =
     resetPlayerState ((pstate P1 r)\<lparr>p_x := 250, p_y := 325, p_vx := 0, p_vy := 0\<rparr>)"
  "pstate P2 (resetRound r) =
     resetPlayerState ((pstate P2 r)\<lparr>p_x := 750, p_y := 325, p_vx := 0, p_vy := 0\<rparr>)"
  by (simp_all add: resetRound_def Let_def fold_clearTimeout)

lemma resetRound_room:
  "pending (resetRound r) = filter (\<lambda>t. t_id t \<notin> set (abilityTimers r)) (pending r)"
  "abilityTimers (resetRound r) = []"
  "sent (resetRound r) = sent r" "clock (resetRound r) = clock r"
  "roundPaused (resetRound r) = roundPaused r" "players (resetRound r) = players r"
  "nextTimer (resetRound r) = nextTimer r" "r_gameMode (resetRound r) = r_gameMode r"
  by (simp_all add: resetRound_def Let_def fold_clearTimeout)

lemma resetRound_state:
  "gameActive (gameState (resetRound r)) = gameActive (gameState r)"
  "winner (gameState (resetRound r)) = winner (gameState r)"
  "gameMode (gameState (resetRound r)) = gameMode (gameState r)"
  "isPaused (gameState (resetRound r)) = isPaused (gameState r)"
  "powerUps (gameState (resetRound r)) = []"
  "mirages (gameState (resetRound r)) = []"
  "voidWells (gameState (resetRound r)) = []"
  by (simp_all add: resetRound_def Let_def fold_clearTimeout modS_def modP_def)

lemma updP_flags [simp]:
  "gameActive (updP i f s) = gameActive s" "winner (updP i f s) = winner s"
  "gameMode (updP i f s) = gameMode s" "isPaused (updP i f s) = isPaused s"
  "powerUps (updP i f s) = powerUps s" "mirages (updP i f s) = mirages s"
  "voidWells (updP i f s) = voidWells s" "shake (updP i f s) = shake s"
  "flash (updP i f s) = flash s" "playersColliding (updP i f s) = playersColliding s"
  by (cases i; simp)+

lemma getP_updP [simp]: "getP i (updP j f s) = (if i = j then f (getP i s) else getP i s)"
  by (cases i; cases j) simp_all

lemma gameState_modP [simp]: "gameState (modP i f r) = updP i f (gameState r)"
  by (simp add: modP_def)

lemma gameState_modS [simp]: "gameState (modS g r) = g (gameState r)"
  by (simp add: modS_def)

lemma gameState_runtime [simp]:
  "gameState (setTimeout cb d r) = gameState r" "gameState (trackTimer cb d r) = gameState r"
  "gameState (broadcast msg r) = gameState r" "gameState (clearTimeout h r) = gameState r"
  by (simp_all add: setTimeout_def trackTimer_def broadcast_def clearTimeout_def)

lemma boundsCheck_inside: "\<not> outOfBounds (pstate i r) \<Longrightarrow> boundsCheck i r = r"
  by (simp add: boundsCheck_def)

lemma boundsCheck_gameOver:
  assumes "outOfBounds (pstate i r)" and "MAX_SCORE \<le> score (pstate (other i) r) + 1"
  shows "pstate (other i) (boundsCheck i r) = (pstate (other i) r)\<lparr>score := score (pstate (other i) r) + 1\<rparr>"
    and "pstate i (boundsCheck i r) = pstate i r"
    and "gameActive (gameState (boundsCheck i r)) = False"
    and "winner (gameState (boundsCheck i r)) = Some (name (pstate (other i) r))"
    and "gameMode (gameState (boundsCheck i r)) = gameMode (gameState r)"
    and "isPaused (gameState (boundsCheck i r)) = isPaused (gameState r)"
    and "pending (boundsCheck i r) = pending r"
    and "roundPaused (boundsCheck i r) = roundPaused r"
    and "clock (boundsCheck i r) = clock r"
    and "\<exists>w s. sent (boundsCheck i r) = sent r @ [GameOver w s]"
  using assms
  by (simp_all add: boundsCheck_def Let_def modS_def modP_def broadcast_def pstate_def
        del: getP_gameState; cases i; simp)+

lemma boundsCheck_reset_eq:
  assumes "outOfBounds (pstate i r)" and "\<not> MAX_SCORE \<le> score (pstate (other i) r) + 1"
  shows "boundsCheck i r =
           (let r2 = modS (\<lambda>s. s\<lparr>flash := 1\<rparr>) (modP (other i) (\<lambda>p. p\<lparr>score := score p + 1\<rparr>) r);
                r3 = resetRound r2
            in setTimeout RoundReadyCb 1000
                 ((broadcast (RoundOver (name (pstate (other i) r3)) (gameState r3)) r3)
                    \<lparr>roundPaused := True\<rparr>))"
  using assms by (simp add: boundsCheck_def Let_def)

lemma resetRound_pstate_gen:
  "pstate j (resetRound r) =
     resetPlayerState ((pstate j r)\<lparr>p_x := homeX j, p_y := 325, p_vx := 0, p_vy := 0\<rparr>)"
  by (cases j) (simp_all add: resetRound_pstate)

lemma boundsCheck_reset:
  assumes "outOfBounds (pstate i r)" and "\<not> MAX_SCORE \<le> score (pstate (other i) r) + 1"
  shows "score (pstate (other i) (boundsCheck i r)) = score (pstate (other i) r) + 1"
    and "score (pstate i (boundsCheck i r)) = score (pstate i r)"
    and "abilityCooldown (pstate j (boundsCheck i r)) = 0"
    and "dashReady (pstate j (boundsCheck i r))"
    and "name (pstate j (boundsCheck i r)) = name (pstate j r)"
    and "p_x (pstate j (boundsCheck i r)) = homeX j"
    and "p_y (pstate j (boundsCheck i r)) = 325"
    and "gameActive (gameState (boundsCheck i r)) = gameActive (gameState r)"
    and "winner (gameState (boundsCheck i r)) = winner (gameState r)"
    and "gameMode (gameState (boundsCheck i r)) = gameMode (gameState r)"
    and "isPaused (gameState (boundsCheck i r)) = isPaused (gameState r)"
    and "roundPaused (boundsCheck i r)"
    and "clock (boundsCheck i r) = clock r"
    and "pending (boundsCheck i r) =
           filter (\<lambda>t. t_id t \<notin> set (abilityTimers r)) (pending r)
           @ [\<lparr>t_id = nextTimer r, t_due = clock r + 1000, t_cb = RoundReadyCb, t_tracked = False\<rparr>]"
    and "\<exists>w s. sent (boundsCheck i r) = sent r @ [RoundOver w s]"
  unfolding boundsCheck_reset_eq [OF assms] Let_def
  by (simp_all add: resetRound_pstate_gen resetRound_room resetRound_state resetPlayerState_def
        setTimeout_def broadcast_def)

subsection \<open>The shape of a tick\<close>

lemma playerStep_eq:
  "playerStep i None r = r"
  "playerStep i (Some pl) r = boundsCheck i (beforeBounds i pl r)"
  by (simp_all add: playerStep_def beforeBounds_def Let_def)

lemma quiet_beforeBounds: "quiet r x \<Longrightarrow> quiet r (beforeBounds i pl x)"
  unfolding beforeBounds_def
  by (intro quiet_collectPowerUps quiet_shieldBounce quiet_movePlayer quiet_integrateVelocity
        quiet_cooldownTick)

lemma quiet_fieldPhase: "quiet r x \<Longrightarrow> quiet r (fieldPhase x)"
  unfolding fieldPhase_def
  by (intro quiet_infinityField quiet_updateVoidWells quiet_updateMirages quiet_pulsePowerUps)

lemma updateGameState_eq:
  "updateGameState r =
     (if isPaused (gameState r) \<or> \<not> gameActive (gameState r) then r
      else decayEffects (resolveCollision
             (playerStep P2 (findPlayer P2 (fieldPhase r))
                (playerStep P1 (findPlayer P1 (fieldPhase r)) (fieldPhase r)))))"
  by (simp add: updateGameState_def fieldPhase_def Let_def)

text \<open>
  A tick is a quiet step, the out-of-bounds test of player 1 (or nothing), a quiet
  step, the out-of-bounds test of player 2 (or nothing), and a quiet step.
\<close>

lemma tick_shape:
  "\<exists>a b c d. quiet r a \<and> (b = boundsCheck P1 a \<or> b = a) \<and> quiet b c
     \<and> (d = boundsCheck P2 c \<or> d = c) \<and> quiet d (updateGameState r)"
proof (cases "isPaused (gameState r) \<or> \<not> gameActive (gameState r)")
  case True
  then have "updateGameState r = r" by (simp add: updateGameState_eq)
  then show ?thesis
    by (metis quiet_refl)
next
  case False
  define f where "f = fieldPhase r"
  have qf: "quiet r f" unfolding f_def by (rule quiet_fieldPhase [OF quiet_refl])
  obtain a b where ab: "quiet f a" "b = boundsCheck P1 a \<or> b = a"
    "playerStep P1 (findPlayer P1 f) f = b"
  proof (cases "findPlayer P1 f")
    case None
    then show ?thesis using that [of f f] by (simp add: playerStep_eq)
  next
    case (Some pl)
    then show ?thesis
      using that [of "beforeBounds P1 pl f" "boundsCheck P1 (beforeBounds P1 pl f)"]
      by (simp add: playerStep_eq quiet_beforeBounds)
  qed
  obtain c d where cd: "quiet b c" "d = boundsCheck P2 c \<or> d = c"
    "playerStep P2 (findPlayer P2 f) b = d"
  proof (cases "findPlayer P2 f")
    case None
    then show ?thesis using that [of b b] by (simp add: playerStep_eq)
  next
    case (Some pl)
    then show ?thesis
      using that [of "beforeBounds P2 pl b" "boundsCheck P2 (beforeBounds P2 pl b)"]
      by (simp add: playerStep_eq quiet_beforeBounds)
  qed
  have e: "updateGameState r = decayEffects (resolveCollision d)"
    using False ab(3) cd(3) by (simp add: updateGameState_eq f_def)
  have qe: "quiet d (updateGameState r)"
    unfolding e by (intro quiet_decayEffects quiet_resolveCollision quiet_refl)
  have qa: "quiet r a" using qf ab(1) by (rule quiet_trans)
  show ?thesis
    using qa ab(2) cd(1,2) qe by blast
qed

subsection \<open>The delayed closures are quiet, but for four\<close>

lemma quiet_scheduleReplays: "quiet r x \<Longrightarrow> quiet r (scheduleReplays j st hs x)"
proof (induction hs arbitrary: x)
  case Nil
  then show ?case by simp
next
  case (Cons h hs)
  show ?case
    using Cons.IH [OF quiet_setTimeout [OF _ Cons.prems, of "EchoReplay j h"]] by simp
qed

lemma quiet_requeue:
  "quietCb (t_cb t) \<Longrightarrow> quiet r x \<Longrightarrow> quiet r (x\<lparr>pending := pending x @ [t]\<rparr>)"
proof (rule quiet_trans)
  assume "quietCb (t_cb t)"
  then show "quiet x (x\<lparr>pending := pending x @ [t]\<rparr>)"
    by (intro quietI) (simp_all add: grows_iff)
qed

lemma quiet_runCallback: "quietCb cb \<Longrightarrow> quiet r x \<Longrightarrow> quiet r (runCallback cb h x)"
proof (cases cb)
  case (EchoPull i j td st ct)
  assume q: "quiet r x"
  show ?thesis
    unfolding EchoPull runCallback.simps
    by (intro quiet_rules quiet_requeue; (rule q | assumption | simp add: pkeep_def))
next
  case (EchoUnfreeze j)
  assume q: "quiet r x"
  show ?thesis
    unfolding EchoUnfreeze runCallback.simps Let_def
    by (intro quiet_rules quiet_scheduleReplays; (rule q | simp add: pkeep_def))
next
  case (GhostBump j a f)
  assume q: "quiet r x"
  show ?thesis
    unfolding GhostBump runCallback.simps
    by (intro quiet_rules quiet_applyImpact; (rule q | assumption | simp add: skeep_def))
next
  case (MeteorLand i j tx ty)
  assume q: "quiet r x"
  show ?thesis
    unfolding MeteorLand runCallback.simps
    by (intro quiet_rules; (rule q | assumption | simp add: pkeep_def skeep_def))
next
  case (BlitzResume i j bp n)
  assume q: "quiet r x"
  show ?thesis
    unfolding BlitzResume runCallback.simps
    by (intro quiet_performBlitzDash quiet_rules; (rule q | simp add: pkeep_def))
qed (simp_all add: quiet_modP quiet_setTimeout pkeep_def)

subsection \<open>The ability cooldown stays in range\<close>

lemma cooldownOk_quiet: "quiet r x \<Longrightarrow> cooldownOk r \<Longrightarrow> cooldownOk x"
  using quietD(1,2) [of r x] by (simp add: cooldownOk_def pkeep_def)

lemma cooldownOk_boundsCheck: "cooldownOk x \<Longrightarrow> cooldownOk (boundsCheck i x)"
proof (cases "outOfBounds (pstate i x)")
  case False
  assume "cooldownOk x"
  then show ?thesis using False by (simp add: boundsCheck_inside)
next
  case True
  assume ok: "cooldownOk x"
  show ?thesis
  proof (cases "MAX_SCORE \<le> score (pstate (other i) x) + 1")
    case True
    from boundsCheck_gameOver(1,2) [OF \<open>outOfBounds (pstate i x)\<close> True] ok
    show ?thesis by (cases i) (simp_all add: cooldownOk_def)
  next
    case False
    from boundsCheck_reset(3) [OF \<open>outOfBounds (pstate i x)\<close> False]
    show ?thesis by (simp add: cooldownOk_def COMP_COOLDOWN_def)
  qed
qed

lemma cooldownOk_tick: "cooldownOk r \<Longrightarrow> cooldownOk (updateGameState r)"
proof -
  assume ok: "cooldownOk r"
  obtain a b c d where s: "quiet r a" "b = boundsCheck P1 a \<or> b = a" "quiet b c"
    "d = boundsCheck P2 c \<or> d = c" "quiet d (updateGameState r)"
    using tick_shape [of r] by blast
  have "cooldownOk a" using s(1) ok by (rule cooldownOk_quiet)
  then have "cooldownOk b" using s(2) by (auto intro: cooldownOk_boundsCheck)
  then have "cooldownOk c" using s(3) by (auto intro: cooldownOk_quiet)
  then have "cooldownOk d" using s(4) by (auto intro: cooldownOk_boundsCheck)
  then show ?thesis using s(5) by (auto intro: cooldownOk_quiet)
qed

lemma cooldownOk_broadcast [simp]: "cooldownOk (broadcast msg r) = cooldownOk r"
  by (simp add: cooldownOk_def)

lemma cooldownOk_gameLoop: "cooldownOk r \<Longrightarrow> cooldownOk (gameLoop r)"
  by (simp add: gameLoop_def Let_def cooldownOk_tick)

lemma cooldownOk_handleAbility: "cooldownOk r \<Longrightarrow> cooldownOk (handleAbility c r)"
proof -
  assume ok: "cooldownOk r"
  have a: "cooldownOk (applyPowerUp i j ab r)" for i j ab
    using quiet_applyPowerUp [OF quiet_refl] ok by (rule cooldownOk_quiet)
  have "cooldownOk (modP i (\<lambda>p. p\<lparr>abilityCooldown := COMP_COOLDOWN\<rparr>) x)" if "cooldownOk x" for i x
    using that by (cases i) (simp_all add: cooldownOk_def COMP_COOLDOWN_def)
  then show ?thesis
    using ok a by (simp add: handleAbility_def Let_def split: option.splits)
qed

lemma handleDash_cooldown:
  "abilityCooldown (pstate j (handleDash c r)) = abilityCooldown (pstate j r)"
  by (simp add: handleDash_def Let_def split_beta)

lemma cooldownOk_handleDash: "cooldownOk r \<Longrightarrow> cooldownOk (handleDash c r)"
  by (simp add: cooldownOk_def handleDash_cooldown)

lemma cooldownOk_runCallback: "cooldownOk r \<Longrightarrow> cooldownOk (runCallback cb h r)"
proof (cases "quietCb cb")
  case True
  assume "cooldownOk r"
  with quiet_runCallback [OF True quiet_refl] show ?thesis by (rule cooldownOk_quiet)
next
  case False
  assume "cooldownOk r"
  with False show ?thesis
    by (cases cb) (simp_all add: cooldownOk_def)
qed

lemma cooldownOk_runtime [simp]:
  "cooldownOk (clearTimeout h r) = cooldownOk r"
  "cooldownOk (r\<lparr>abilityTimers := hs\<rparr>) = cooldownOk r"
  by (simp_all add: cooldownOk_def)

lemma cooldownOk_fire: "cooldownOk r \<Longrightarrow> cooldownOk (fire h r)"
  by (simp add: fire_def Let_def cooldownOk_runCallback split: option.splits)

lemma cooldownOk_resetRound: "cooldownOk (resetRound r)"
  by (simp add: cooldownOk_def resetRound_pstate_gen resetPlayerState_def COMP_COOLDOWN_def)

lemma cooldownOk_startedRoom: "cooldownOk (startedRoom mode ps rnd)"
  by (simp add: cooldownOk_def startedRoom_def Let_def pstate_def createInitialGameState_def
        createPlayerState_def setTimeout_def broadcast_def COMP_COOLDOWN_def
        split: option.splits del: getP_gameState)

text \<open>
  C9. Both ability cooldown counters start in \<open>[0, 600]\<close> and stay there under every
  operation of the room: a whole tick (with its guarded decrement, the void-well stun
  penalty and the dash-hit penalty), the game loop, an ability request, a dash request,
  every delayed closure and the event loop that runs it; a round reset puts them at 0.
\<close>

theorem cooldown_in_range:
  "cooldownOk (startedRoom mode ps rnd) \<and> cooldownOk (resetRound r)
   \<and> (cooldownOk r \<longrightarrow>
        cooldownOk (updateGameState r) \<and> cooldownOk (gameLoop r)
        \<and> cooldownOk (cooldownTick i r) \<and> cooldownOk (snd (voidWellStep v r))
        \<and> cooldownOk (fst (dashHit1 a r)) \<and> cooldownOk (fst (dashHit2 a r))
        \<and> cooldownOk (handleAbility c r) \<and> cooldownOk (onAbility c r)
        \<and> cooldownOk (handleDash c r)
        \<and> cooldownOk (runCallback cb h r) \<and> cooldownOk (fire h r))"
proof -
  have "cooldownOk (cooldownTick i r)" "cooldownOk (snd (voidWellStep v r))"
    "cooldownOk (fst (dashHit1 a r))" "cooldownOk (fst (dashHit2 a r))" if "cooldownOk r"
    using that quiet_cooldownTick [OF quiet_refl, of r i] quiet_voidWellStep [OF quiet_refl, of r v]
      quiet_dashHit1 [OF quiet_refl, of r a] quiet_dashHit2 [OF quiet_refl, of r a]
    by (auto intro: cooldownOk_quiet)
  then show ?thesis
    by (simp add: cooldownOk_startedRoom cooldownOk_resetRound cooldownOk_tick cooldownOk_gameLoop
        cooldownOk_handleAbility cooldownOk_handleDash cooldownOk_runCallback cooldownOk_fire
        onAbility_def)
qed

lemma p12_gameState [simp]:
  "p1 (gameState r) = pstate P1 r" "p2 (gameState r) = pstate P2 r"
  by (simp_all add: pstate_def del: getP_gameState)

lemma frozenGridRoom_mode [simp]: "gameMode (gameState frozenGridRoom) = Competitive"
  by (simp add: frozenGridRoom_def onAbility_def handleAbility_def newPlayer_def applyPowerUp_def
        echoFrozenRoom_def duel_eq createInitialGameState_def)

lemma pstate_P1_frozenGridRoom [simp]:
  "pstate P1 frozenGridRoom = createPlayerState ''#00f2ff'' ''BLUE'' 250"
  by (simp add: frozenGridRoom_def onAbility_def handleAbility_def newPlayer_def applyPowerUp_def
        echoFrozenRoom_def)

theorem cooldown_in_range_witness:
  "cooldownOk frozenGridRoom \<and> abilityCooldown (pstate P2 frozenGridRoom) = 600
   \<and> abilityCooldown (pstate P2 (cooldownTick P2 frozenGridRoom)) = 599
   \<and> cooldownOk (updateGameState frozenGridRoom)
   \<and> cooldownOk (fst (dashHit1 0 frozenGridRoom))
   \<and> abilityCooldown (pstate P2 (fst (dashHit1 0 frozenGridRoom))) = 600"
proof -
  have ok: "cooldownOk frozenGridRoom"
    by (simp add: cooldownOk_def createPlayerState_def COMP_COOLDOWN_def)
  have t: "abilityCooldown (pstate P2 (cooldownTick P2 frozenGridRoom)) = 599"
    by (simp add: cooldownTick_def createPlayerState_def)
  have d: "abilityCooldown (pstate P2 (fst (dashHit1 0 frozenGridRoom))) = 600"
    by (simp add: dashHit1_def Let_def vesselMult_def vesselShake_def applyImpact_def
        triggerRecoil_def createPlayerState_def COMP_COOLDOWN_def)
  show ?thesis
    using cooldown_in_range [of Competitive "[]" "\<lambda>n. 0" frozenGridRoom P2 _ 0] ok t d
    by (simp add: createPlayerState_def)
qed

subsection \<open>Mirages: the knockback and its cooldown\<close>

lemma mirageMove_owner_victim [simp]: "mirageVictim (mirageMove m) = mirageVictim m"
  by (simp add: mirageVictim_def)

lemma mirageStep_eq:
  "mirageStep m r =
     ((mirageMove m)\<lparr>hitCooldown :=
         Some (if mirageReach m r \<and> cooledDown m \<le> 0 then 30 else cooledDown m)\<rparr>,
      mirageReach m r \<and> cooledDown m \<le> 0,
      if mirageReach m r \<and> cooledDown m \<le> 0 \<and> \<not> isGrid (pstate (mirageVictim m) r) then
        modP (mirageVictim m)
          (\<lambda>p. p\<lparr>p_vx := p_vx p + cos (mirageAngle m r) * 15,
                  p_vy := p_vy p + sin (mirageAngle m r) * 15\<rparr>) r
      else r)"
  by (simp add: mirageStep_def Let_def mirageVictim_def cooledDown_def mirageReach_def
        mirageAngle_def)

lemma mirageKnock_eq:
  "mirageKnock m r j =
     (if mirageReach m r \<and> cooledDown m \<le> 0 \<and> \<not> isGrid (pstate (mirageVictim m) r)
         \<and> j = mirageVictim m
      then (cos (mirageAngle m r) * 15, sin (mirageAngle m r) * 15) else (0, 0))"
  by (simp add: mirageKnock_def mirageStep_eq)

lemma sameStance_reads:
  assumes "sameStance r x"
  shows "mirageReach m x = mirageReach m r" and "mirageAngle m x = mirageAngle m r"
    and "isGrid (pstate j x) = isGrid (pstate j r)"
  using assms
  by (cases j; cases "mirageVictim m"; simp add: sameStance_def mirageReach_def mirageAngle_def)+

lemma mirageStep_stance:
  assumes "sameStance r x"
  shows "fst (mirageStep m x) = fst (mirageStep m r)"
    and "fst (snd (mirageStep m x)) = fst (snd (mirageStep m r))"
    and "sameStance r (snd (snd (mirageStep m x)))"
    and "pstate j (snd (snd (mirageStep m x))) =
           (pstate j x)\<lparr>p_vx := p_vx (pstate j x) + fst (mirageKnock m r j),
                         p_vy := p_vy (pstate j x) + snd (mirageKnock m r j)\<rparr>"
proof -
  note rd = sameStance_reads [OF assms]
  show "fst (mirageStep m x) = fst (mirageStep m r)"
    "fst (snd (mirageStep m x)) = fst (snd (mirageStep m r))"
    by (simp_all add: mirageStep_eq rd)
  show "sameStance r (snd (snd (mirageStep m x)))"
    using assms by (simp add: mirageStep_eq sameStance_def)
  show "pstate j (snd (snd (mirageStep m x))) =
           (pstate j x)\<lparr>p_vx := p_vx (pstate j x) + fst (mirageKnock m r j),
                         p_vy := p_vy (pstate j x) + snd (mirageKnock m r j)\<rparr>"
    by (simp add: mirageStep_eq mirageKnock_eq rd)
qed

lemma mirageLoop_stance:
  assumes "sameStance r x"
  shows "fst (mirageLoop ms x) = filter (\<lambda>m'. \<not> m_life m' \<le> 0) (map (\<lambda>m. fst (mirageStep m r)) ms)
       \<and> sameStance r (snd (mirageLoop ms x))
       \<and> (\<forall>j. pstate j (snd (mirageLoop ms x)) =
             (pstate j x)\<lparr>p_vx := p_vx (pstate j x) + (\<Sum>m\<leftarrow>ms. fst (mirageKnock m r j)),
                           p_vy := p_vy (pstate j x) + (\<Sum>m\<leftarrow>ms. snd (mirageKnock m r j))\<rparr>)"
  using assms
proof (induction ms arbitrary: x)
  case Nil
  then show ?case by simp
next
  case (Cons m ms)
  note st = mirageStep_stance [OF Cons.prems, where m = m]
  note ih = Cons.IH [OF st(3)]
  show ?case
    using ih st(1) by (simp add: split_beta st(4) add.assoc)
qed

lemma sameStance_refl [simp]: "sameStance r r"
  by (simp add: sameStance_def)

lemma updateMirages_list:
  "mirages (gameState (updateMirages r)) =
     filter (\<lambda>m'. \<not> m_life m' \<le> 0) (map (\<lambda>m. fst (mirageStep m r)) (mirages (gameState r)))"
proof -
  have "mirages (gameState (updateMirages r)) = rev (fst (mirageLoop (rev (mirages (gameState r))) r))"
    by (simp add: updateMirages_def split_beta)
  then show ?thesis
    using mirageLoop_stance [OF sameStance_refl, where ms = "rev (mirages (gameState r))" and r = r]
    by (simp add: rev_map [symmetric] rev_filter [symmetric])
qed

lemma updateMirages_pstate:
  "pstate j (updateMirages r) =
     (pstate j r)\<lparr>p_vx := p_vx (pstate j r) + (\<Sum>m\<leftarrow>mirages (gameState r). fst (mirageKnock m r j)),
                   p_vy := p_vy (pstate j r) + (\<Sum>m\<leftarrow>mirages (gameState r). snd (mirageKnock m r j))\<rparr>"
proof -
  have "pstate j (updateMirages r) = pstate j (snd (mirageLoop (rev (mirages (gameState r))) r))"
    by (simp add: updateMirages_def split_beta)
  then show ?thesis
    using mirageLoop_stance [OF sameStance_refl, where ms = "rev (mirages (gameState r))" and r = r]
    by (simp add: rev_map [symmetric] sum_list_rev)
qed

lemma count_filter_mono:
  "list_all2 (\<lambda>x y. P x \<longrightarrow> Q y) xs ys \<Longrightarrow> length (filter P xs) \<le> length (filter Q ys)"
  by (induction rule: list_all2_induct) auto

lemma knocks_hits:
  "list_all2 (\<lambda>v h. v \<noteq> (0, 0) \<longrightarrow> h) (mirageKnocks m rs) (mirageHits m rs)"
proof (induction rs arbitrary: m)
  case Nil
  then show ?case by simp
next
  case (Cons r rs)
  have a: "mirageKnock m r (mirageVictim m) \<noteq> (0, 0) \<longrightarrow> fst (snd (mirageStep m r))"
    by (simp add: mirageKnock_eq mirageStep_eq)
  show ?case
    using Cons.IH [of "fst (mirageStep m r)"] a
    by (simp add: split_beta)
qed

lemma mirageKnocks_window:
  "length (filter (\<lambda>v. v \<noteq> (0, 0)) (take 30 (drop k (mirageKnocks m rs)))) \<le> 1"
proof -
  have "list_all2 (\<lambda>v h. v \<noteq> (0, 0) \<longrightarrow> h)
          (take 30 (drop k (mirageKnocks m rs))) (take 30 (drop k (mirageHits m rs)))"
    by (intro list_all2_takeI list_all2_dropI knocks_hits)
  then have "length (filter (\<lambda>v. v \<noteq> (0, 0)) (take 30 (drop k (mirageKnocks m rs))))
               \<le> length (filter (\<lambda>h. h) (take 30 (drop k (mirageHits m rs))))"
    by (rule count_filter_mono)
  also have "\<dots> \<le> 1" by (rule mirageHits_window)
  finally show ?thesis .
qed

lemma resting_knocks:
  "mirageKnocks (restingMirage\<lparr>m_life := l, hitCooldown := c\<rparr>) (duel Casual # rs) =
     (if (case c of None \<Rightarrow> 0 | Some n \<Rightarrow> n) \<le> 1 then (15, 0) else (0, 0))
     # (if l - 1 / 60 \<le> 0 then []
        else mirageKnocks
               (restingMirage\<lparr>m_life := l - 1 / 60,
                  hitCooldown := Some (if (case c of None \<Rightarrow> 0 | Some n \<Rightarrow> n) \<le> 1 then 30
                                       else (case c of None \<Rightarrow> 0 | Some n \<Rightarrow> n) - 1)\<rparr>) rs)"
proof -
  have v: "mirageVictim (restingMirage\<lparr>m_life := l, hitCooldown := c\<rparr>) = P2"
    by (simp add: mirageVictim_def restingMirage_def)
  show ?thesis
    by (simp add: resting_step mirageKnock_def v)
qed

lemma resting_knocks_31:
  "mirageKnocks restingMirage (replicate 31 (duel Casual)) = (15, 0) # replicate 29 (0, 0) @ [(15, 0)]"
  apply (subst resting_start)
  apply (simp add: numeral_eq_Suc resting_knocks del: mirageKnocks.simps(2))
  done

text \<open>
  C7. The step of a mirage enters the knockback branch exactly when the moved mirage
  reaches its victim and the cooldown, after the tick's decrement, is not positive; only
  then, and only for a victim that is not grid-locked, does the step change the room, by
  adding a velocity of 15 along the angle to the victim, and it sets the cooldown to 30;
  otherwise the room is left as it is and the decremented cooldown is stored. Over any
  sequence of ticks, whatever the opponent does, any 30 consecutive ticks of one mirage
  hold at most one entry into the knockback branch and at most one knockback. The
  mirage loop of a tick stores for every mirage exactly the mirage its step returns
  (cooldown included), keeps exactly those whose life is still positive, hit or not,
  and changes each player's velocity by the sum of the knockbacks of the steps.
\<close>

theorem mirage_cooldown_window:
  "length (filter (\<lambda>h. h) (take 30 (drop k (mirageHits m rs)))) \<le> 1
   \<and> length (filter (\<lambda>v. v \<noteq> (0, 0)) (take 30 (drop k (mirageKnocks m rs)))) \<le> 1
   \<and> mirageStep m r =
       ((mirageMove m)\<lparr>hitCooldown :=
           Some (if mirageReach m r \<and> cooledDown m \<le> 0 then 30 else cooledDown m)\<rparr>,
        mirageReach m r \<and> cooledDown m \<le> 0,
        if mirageReach m r \<and> cooledDown m \<le> 0 \<and> \<not> isGrid (pstate (mirageVictim m) r) then
          modP (mirageVictim m)
            (\<lambda>p. p\<lparr>p_vx := p_vx p + cos (mirageAngle m r) * 15,
                    p_vy := p_vy p + sin (mirageAngle m r) * 15\<rparr>) r
        else r)
   \<and> (\<not> fst (snd (mirageStep m r)) \<longrightarrow>
        snd (snd (mirageStep m r)) = r \<and> mirageKnock m r j = (0, 0))
   \<and> mirageKnock m r j =
       (if fst (snd (mirageStep m r)) \<and> \<not> isGrid (pstate (mirageVictim m) r) \<and> j = mirageVictim m
        then (cos (mirageAngle m r) * 15, sin (mirageAngle m r) * 15) else (0, 0))
   \<and> m_life (fst (mirageStep m r)) = m_life m - 1 / 60
   \<and> m_id (fst (mirageStep m r)) = m_id m
   \<and> mirages (gameState (updateMirages r)) =
       filter (\<lambda>m'. \<not> m_life m' \<le> 0) (map (\<lambda>m. fst (mirageStep m r)) (mirages (gameState r)))
   \<and> pstate j (updateMirages r) =
       (pstate j r)\<lparr>p_vx := p_vx (pstate j r) + (\<Sum>m\<leftarrow>mirages (gameState r). fst (mirageKnock m r j)),
                     p_vy := p_vy (pstate j r) + (\<Sum>m\<leftarrow>mirages (gameState r). snd (mirageKnock m r j))\<rparr>"
proof -
  have a: "\<not> fst (snd (mirageStep m r)) \<longrightarrow>
             snd (snd (mirageStep m r)) = r \<and> mirageKnock m r j = (0, 0)"
    by (simp add: mirageStep_eq mirageKnock_eq)
  have b: "mirageKnock m r j =
       (if fst (snd (mirageStep m r)) \<and> \<not> isGrid (pstate (mirageVictim m) r) \<and> j = mirageVictim m
        then (cos (mirageAngle m r) * 15, sin (mirageAngle m r) * 15) else (0, 0))"
    by (simp add: mirageStep_eq mirageKnock_eq)
  have c: "m_life (fst (mirageStep m r)) = m_life m - 1 / 60" "m_id (fst (mirageStep m r)) = m_id m"
    by (simp_all add: mirageStep_eq)
  show ?thesis
    using mirageHits_window [of k m rs] mirageKnocks_window [of k m rs] mirageStep_eq [of m r]
      a b c updateMirages_list [of r] updateMirages_pstate [of j r]
    by blast
qed

theorem mirage_cooldown_window_witness:
  "mirageHits restingMirage (replicate 31 (duel Casual)) = True # replicate 29 False @ [True]
   \<and> mirageKnocks restingMirage (replicate 31 (duel Casual))
       = (15, 0) # replicate 29 (0, 0) @ [(15, 0)]
   \<and> length (filter (\<lambda>h. h) (take 30 (drop 0 (mirageHits restingMirage (replicate 31 (duel Casual)))))) = 1
   \<and> length (filter (\<lambda>v. v \<noteq> (0, 0))
        (take 30 (drop 1 (mirageKnocks restingMirage (replicate 31 (duel Casual)))))) = 1
   \<and> \<not> fst (snd (mirageStep (restingMirage\<lparr>hitCooldown := Some 30\<rparr>) (duel Casual)))
   \<and> snd (snd (mirageStep (restingMirage\<lparr>hitCooldown := Some 30\<rparr>) (duel Casual))) = duel Casual
   \<and> hitCooldown (fst (mirageStep (restingMirage\<lparr>hitCooldown := Some 30\<rparr>) (duel Casual))) = Some 29"
proof -
  let ?hs = "mirageHits restingMirage (replicate 31 (duel Casual))"
  let ?ks = "mirageKnocks restingMirage (replicate 31 (duel Casual))"
  let ?m = "restingMirage\<lparr>hitCooldown := Some 30\<rparr>"
  note t0 = mirage_cooldown_window [where k = 0 and m = restingMirage
      and rs = "replicate 31 (duel Casual)" and r = "duel Casual" and j = P2]
  note t1 = mirage_cooldown_window [where k = 1 and m = restingMirage
      and rs = "replicate 31 (duel Casual)" and r = "duel Casual" and j = P2]
  note t2 = mirage_cooldown_window [where k = 0 and m = ?m
      and rs = "[]" and r = "duel Casual" and j = P2]
  have le0: "length (filter (\<lambda>h. h) (take 30 (drop 0 ?hs))) \<le> 1"
    using t0 by blast
  have le1: "length (filter (\<lambda>v. v \<noteq> (0, 0)) (take 30 (drop 1 ?ks))) \<le> 1"
    using t1 by blast
  have ge0: "1 \<le> length (filter (\<lambda>h. h) (take 30 (drop 0 ?hs)))"
    unfolding resting_31 by (simp add: numeral_eq_Suc)
  have ge1: "1 \<le> length (filter (\<lambda>v. v \<noteq> (0, 0)) (take 30 (drop 1 ?ks)))"
    unfolding resting_knocks_31 by (simp add: numeral_eq_Suc)
  have nh: "\<not> fst (snd (mirageStep ?m (duel Casual)))"
    by (simp add: mirageStep_eq cooledDown_def restingMirage_def)
  have same: "snd (snd (mirageStep ?m (duel Casual))) = duel Casual"
    using t2 nh by blast
  have cd: "hitCooldown (fst (mirageStep ?m (duel Casual))) = Some 29"
    by (simp add: mirageStep_eq cooledDown_def restingMirage_def)
  show ?thesis
    using le0 le1 ge0 ge1 resting_31 resting_knocks_31 nh same cd by linarith
qed

subsection \<open>The end of the game\<close>

lemma quiet_ledger:
  assumes "quiet r x"
  shows "score (pstate j x) = score (pstate j r)" and "name (pstate j x) = name (pstate j r)"
    and "dashReady (pstate j x) = dashReady (pstate j r)"
  using quietD(1,2) [OF assms] by (cases j; simp add: pkeep_def)+

lemma pid_other: "j \<noteq> other i \<Longrightarrow> j = i"
  by (cases i; cases j) simp_all

lemma boundsCheck_score:
  "score (pstate j (boundsCheck i r)) =
     score (pstate j r) + (if outOfBounds (pstate i r) \<and> j = other i then 1 else 0)"
proof (cases "outOfBounds (pstate i r)")
  case False
  then show ?thesis by (simp add: boundsCheck_inside)
next
  case out: True
  show ?thesis
  proof (cases "MAX_SCORE \<le> score (pstate (other i) r) + 1")
    case True
    show ?thesis
    proof (cases "j = other i")
      case True
      then show ?thesis using boundsCheck_gameOver(1) [OF out \<open>MAX_SCORE \<le> _\<close>] out by simp
    next
      case False
      then have "j = i" by (rule pid_other)
      then show ?thesis using boundsCheck_gameOver(2) [OF out \<open>MAX_SCORE \<le> _\<close>] by simp
    qed
  next
    case nm: False
    show ?thesis
    proof (cases "j = other i")
      case True
      then show ?thesis using boundsCheck_reset(1) [OF out nm] out by simp
    next
      case False
      then have "j = i" by (rule pid_other)
      then show ?thesis using boundsCheck_reset(2) [OF out nm] by simp
    qed
  qed
qed

lemma boundsCheck_name: "name (pstate j (boundsCheck i r)) = name (pstate j r)"
proof (cases "outOfBounds (pstate i r)")
  case False
  then show ?thesis by (simp add: boundsCheck_inside)
next
  case out: True
  show ?thesis
  proof (cases "MAX_SCORE \<le> score (pstate (other i) r) + 1")
    case True
    show ?thesis
    proof (cases "j = other i")
      case True
      then show ?thesis using boundsCheck_gameOver(1) [OF out \<open>MAX_SCORE \<le> _\<close>] by simp
    next
      case False
      then have "j = i" by (rule pid_other)
      then show ?thesis using boundsCheck_gameOver(2) [OF out \<open>MAX_SCORE \<le> _\<close>] by simp
    qed
  next
    case False
    show ?thesis
      using boundsCheck_reset(5) [OF out False] by simp
  qed
qed

lemma over_boundsCheck:
  assumes "\<not> gameActive (gameState r)"
    and "winner (gameState r) = Some (name (pstate w r))" and "MAX_SCORE \<le> score (pstate w r)"
  shows "\<not> gameActive (gameState (boundsCheck i r))
     \<and> (\<exists>v. winner (gameState (boundsCheck i r)) = Some (name (pstate v (boundsCheck i r)))
            \<and> MAX_SCORE \<le> score (pstate v (boundsCheck i r)))"
proof (cases "outOfBounds (pstate i r)")
  case False
  then show ?thesis using assms by (auto simp add: boundsCheck_inside)
next
  case out: True
  show ?thesis
  proof (cases "MAX_SCORE \<le> score (pstate (other i) r) + 1")
    case True
    have "MAX_SCORE \<le> score (pstate (other i) (boundsCheck i r))"
      using True out by (simp add: boundsCheck_score)
    then have "winner (gameState (boundsCheck i r)) = Some (name (pstate (other i) (boundsCheck i r)))
        \<and> MAX_SCORE \<le> score (pstate (other i) (boundsCheck i r))"
      using boundsCheck_gameOver(4) [OF out True] boundsCheck_name [of "other i" i r] by simp
    then show ?thesis
      using boundsCheck_gameOver(3) [OF out True] by blast
  next
    case False
    have "MAX_SCORE \<le> score (pstate w (boundsCheck i r))"
      using assms(3) by (auto simp add: boundsCheck_score)
    then have "winner (gameState (boundsCheck i r)) = Some (name (pstate w (boundsCheck i r)))
        \<and> MAX_SCORE \<le> score (pstate w (boundsCheck i r))"
      using boundsCheck_reset(9) [OF out False] assms(2) boundsCheck_name [of w i r] by simp
    then show ?thesis
      using boundsCheck_reset(8) [OF out False] assms(1) by blast
  qed
qed

lemma over_quiet:
  assumes "quiet r x" and "\<not> gameActive (gameState r)"
    and "\<exists>w. winner (gameState r) = Some (name (pstate w r)) \<and> MAX_SCORE \<le> score (pstate w r)"
  shows "\<not> gameActive (gameState x)
     \<and> (\<exists>v. winner (gameState x) = Some (name (pstate v x)) \<and> MAX_SCORE \<le> score (pstate v x))"
  using assms(2,3) quietD(3,4) [OF assms(1)] quiet_ledger(1,2) [OF assms(1)] by auto

lemma over_reached:
  assumes "score (pstate j r) < MAX_SCORE" and "MAX_SCORE \<le> score (pstate j (boundsCheck i r))"
  shows "\<not> gameActive (gameState (boundsCheck i r))
     \<and> (\<exists>v. winner (gameState (boundsCheck i r)) = Some (name (pstate v (boundsCheck i r)))
            \<and> MAX_SCORE \<le> score (pstate v (boundsCheck i r)))"
proof -
  have out: "outOfBounds (pstate i r)" and j: "j = other i"
    using assms by (auto simp add: boundsCheck_score split: if_splits)
  have m: "MAX_SCORE \<le> score (pstate (other i) r) + 1"
    using assms(2) out j by (simp add: boundsCheck_score)
  have "winner (gameState (boundsCheck i r)) = Some (name (pstate j (boundsCheck i r)))
      \<and> MAX_SCORE \<le> score (pstate j (boundsCheck i r))"
    using boundsCheck_gameOver(4) [OF out m] boundsCheck_name [of "other i" i r] assms(2) j by simp
  then show ?thesis
    using boundsCheck_gameOver(3) [OF out m] by blast
qed

lemma tick_over:
  assumes lt: "score (pstate j r) < MAX_SCORE"
    and ge: "MAX_SCORE \<le> score (pstate j (updateGameState r))"
  shows "isOver (updateGameState r)"
proof -
  obtain a b c d where s: "quiet r a" "b = boundsCheck P1 a \<or> b = a" "quiet b c"
    "d = boundsCheck P2 c \<or> d = c" "quiet d (updateGameState r)"
    using tick_shape [of r] by blast
  have oq: "isOver x \<Longrightarrow> quiet x y \<Longrightarrow> isOver y" for x y
    unfolding isOver_def using over_quiet [of x y] by blast
  have ob: "isOver x \<Longrightarrow> isOver (boundsCheck i x)" for x i
    unfolding isOver_def using over_boundsCheck [of x _ i] by blast
  have orr: "score (pstate j x) < MAX_SCORE \<Longrightarrow> MAX_SCORE \<le> score (pstate j (boundsCheck i x))
      \<Longrightarrow> isOver (boundsCheck i x)" for x i
    unfolding isOver_def using over_reached [of j x i] by blast
  have sa: "score (pstate j a) < MAX_SCORE"
    using lt quiet_ledger(1) [OF s(1)] by simp
  have sd: "MAX_SCORE \<le> score (pstate j d)"
    using ge quiet_ledger(1) [OF s(5)] by simp
  have "isOver d"
  proof (cases "MAX_SCORE \<le> score (pstate j b)")
    case True
    then have "b = boundsCheck P1 a" using sa s(2) by auto
    then have "isOver b" using orr [of a P1] sa True by simp
    then have "isOver c" using s(3) by (rule oq)
    then show ?thesis using s(4) ob [of c P2] by auto
  next
    case False
    then have sc: "score (pstate j c) < MAX_SCORE"
      using quiet_ledger(1) [OF s(3)] by simp
    then have "d = boundsCheck P2 c" using sd s(4) by auto
    then show ?thesis using orr [of c P2] sc sd by simp
  qed
  then show ?thesis using s(5) by (rule oq)
qed

lemma updateGameState_inactive: "\<not> gameActive (gameState r) \<Longrightarrow> updateGameState r = r"
  by (simp add: updateGameState_def)

lemma gameLoop_inactive: "\<not> gameActive (gameState r) \<Longrightarrow> gameLoop r = r"
  by (simp add: gameLoop_def)

lemma funpow_fixed: "f r = r \<Longrightarrow> (f ^^ n) r = r"
  by (induction n) simp_all


lemma findPlayer_quiet: "quiet r x \<Longrightarrow> findPlayer i x = findPlayer i r"
  using quietD(8) [of r x] by (simp add: findPlayer_def)

lemma tick_score_P2:
  assumes act: "\<not> isPaused (gameState r)" "gameActive (gameState r)"
    and f1: "findPlayer P1 r = Some pl1"
  shows "score (pstate P2 (updateGameState r)) =
           score (pstate P2 r)
           + (if outOfBounds (pstate P1 (beforeBounds P1 pl1 (fieldPhase r))) then 1 else 0)"
proof -
  define f where "f = fieldPhase r"
  define b where "b = boundsCheck P1 (beforeBounds P1 pl1 f)"
  have qf: "quiet r f" unfolding f_def by (rule quiet_fieldPhase [OF quiet_refl])
  have c1: "findPlayer P1 f = Some pl1" using findPlayer_quiet [OF qf] f1 by simp
  have x: "updateGameState r = decayEffects (resolveCollision (playerStep P2 (findPlayer P2 f) b))"
    using act c1 by (simp add: updateGameState_eq f_def b_def playerStep_eq)
  have "quiet (playerStep P2 (findPlayer P2 f) b) (updateGameState r)"
    unfolding x by (intro quiet_decayEffects quiet_resolveCollision quiet_refl)
  then have 1: "score (pstate P2 (updateGameState r)) = score (pstate P2 (playerStep P2 (findPlayer P2 f) b))"
    by (rule quiet_ledger(1))
  have 2: "score (pstate P2 (playerStep P2 (findPlayer P2 f) b)) = score (pstate P2 b)"
  proof (cases "findPlayer P2 f")
    case None
    then show ?thesis by (simp add: playerStep_eq)
  next
    case (Some pl2)
    have "score (pstate P2 (beforeBounds P2 pl2 b)) = score (pstate P2 b)"
      by (rule quiet_ledger(1) [OF quiet_beforeBounds [OF quiet_refl]])
    then show ?thesis using Some by (simp add: playerStep_eq boundsCheck_score)
  qed
  have 3: "score (pstate P2 (beforeBounds P1 pl1 f)) = score (pstate P2 f)"
    by (rule quiet_ledger(1) [OF quiet_beforeBounds [OF quiet_refl]])
  have 4: "score (pstate P2 f) = score (pstate P2 r)"
    by (rule quiet_ledger(1) [OF qf])
  have "score (pstate P2 b) = score (pstate P2 r)
           + (if outOfBounds (pstate P1 (beforeBounds P1 pl1 f)) then 1 else 0)"
    unfolding b_def boundsCheck_score 3 4 by simp
  then show ?thesis
    using 1 2 by (simp add: f_def)
qed

lemma matchPoint_eq:
  "matchPoint =
     \<lparr>players = [newPlayer P1, newPlayer P2],
      gameState = (createInitialGameState Casual)
        \<lparr>p1 := (createPlayerState ''#00f2ff'' ''BLUE'' 250)\<lparr>p_x := 3, p_vx := - 10\<rparr>,
         p2 := (createPlayerState ''#ff0077'' ''RED'' 750)\<lparr>score := 20\<rparr>\<rparr>,
      r_gameMode = Casual, roundPaused = False, abilityTimers = [], pending = [],
      nextTimer = 1, clock = 1500,
      sent = [GameStarted (createInitialGameState Casual) Casual],
      voidWellIdCounter = 0, mirageIdCounter = 0, random = (\<lambda>n. 0), drawn = 0\<rparr>"
  by (simp add: matchPoint_def duel_eq modP_def createInitialGameState_def)

lemma matchPoint_fieldPhase: "fieldPhase matchPoint = matchPoint"
  by (simp add: fieldPhase_def pulsePowerUps_def updateMirages_def updateVoidWells_def
      infinityField_def matchPoint_eq modS_def pstate_def createInitialGameState_def
      createPlayerState_def del: getP_gameState p12_gameState)

lemma matchPoint_exit:
  "p_x (pstate P1 (beforeBounds P1 (newPlayer P1) matchPoint)) = - 32 / 5"
  by (simp add: beforeBounds_def cooldownTick_def integrateVelocity_def movePlayer_def
      shieldBounce_def collectPowerUps_def matchPoint_eq modS_def modP_def pstate_def Let_def
      createInitialGameState_def createPlayerState_def newPlayer_def noKeys_def keyDir_def
      del: getP_gameState p12_gameState)

lemma matchPoint_facts:
  "score (pstate P2 matchPoint) = 20" "\<not> isPaused (gameState matchPoint)"
  "gameActive (gameState matchPoint)" "findPlayer P1 matchPoint = Some (newPlayer P1)"
  "name (pstate P1 matchPoint) = ''BLUE''" "name (pstate P2 matchPoint) = ''RED''"
  "score (pstate P1 matchPoint) = 0"
  by (simp_all add: matchPoint_eq pstate_def createInitialGameState_def createPlayerState_def
      findPlayer_def newPlayer_def del: getP_gameState p12_gameState)

lemma matchPoint_tick: "score (pstate P2 (updateGameState matchPoint)) = 21"
  using tick_score_P2 [OF matchPoint_facts(2,3,4)]
  by (simp add: matchPoint_fieldPhase outOfBounds_def matchPoint_exit matchPoint_facts(1))


lemma gameLoop_over:
  assumes "score (pstate j r) < MAX_SCORE" and "MAX_SCORE \<le> score (pstate j (gameLoop r))"
  shows "isOver (gameLoop r)"
proof (cases "gameActive (gameState r) \<and> \<not> roundPaused r")
  case True
  then have e: "gameLoop r = broadcast (StateUpdate (gameState (updateGameState r))) (updateGameState r)"
    by (simp add: gameLoop_def Let_def)
  have "isOver (updateGameState r)"
    using assms by (intro tick_over [of j]) (simp_all add: e)
  then show ?thesis
    by (simp add: e isOver_def)
next
  case False
  then have "gameLoop r = r" by (auto simp add: gameLoop_def)
  then show ?thesis using assms by simp
qed

text \<open>
  C4. When a tick takes a player's score from below \<open>MAX_SCORE\<close> (21) to \<open>MAX_SCORE\<close> or
  more, the game is over after that tick: \<open>gameActive\<close> is false and \<open>winner\<close> is the name
  of a player with at least \<open>MAX_SCORE\<close> points; the same holds for the closure of the game
  loop, which runs the tick. In a room whose game is not active a tick and a run of the
  game loop change nothing at all, so neither do any number of them: no player's position
  (nor anything else of the room) is changed by a later tick.
\<close>

theorem game_over_idempotent:
  "(score (pstate j r) < MAX_SCORE \<and> MAX_SCORE \<le> score (pstate j (updateGameState r)) \<longrightarrow>
      \<not> gameActive (gameState (updateGameState r))
      \<and> (\<exists>w. winner (gameState (updateGameState r)) = Some (name (pstate w (updateGameState r)))
             \<and> MAX_SCORE \<le> score (pstate w (updateGameState r)))
      \<and> (updateGameState ^^ n) (updateGameState r) = updateGameState r
      \<and> (gameLoop ^^ n) (updateGameState r) = updateGameState r)
   \<and> (score (pstate j r) < MAX_SCORE \<and> MAX_SCORE \<le> score (pstate j (gameLoop r)) \<longrightarrow>
      \<not> gameActive (gameState (gameLoop r))
      \<and> (\<exists>w. winner (gameState (gameLoop r)) = Some (name (pstate w (gameLoop r)))
             \<and> MAX_SCORE \<le> score (pstate w (gameLoop r)))
      \<and> (gameLoop ^^ n) (gameLoop r) = gameLoop r)
   \<and> (\<not> gameActive (gameState r) \<longrightarrow>
        updateGameState r = r \<and> gameLoop r = r
        \<and> (updateGameState ^^ n) r = r \<and> (gameLoop ^^ n) r = r
        \<and> p_x (pstate j ((gameLoop ^^ n) r)) = p_x (pstate j r)
        \<and> p_y (pstate j ((gameLoop ^^ n) r)) = p_y (pstate j r))"
proof -
  have fx: "\<not> gameActive (gameState x) \<Longrightarrow>
      updateGameState x = x \<and> gameLoop x = x \<and> (updateGameState ^^ n) x = x \<and> (gameLoop ^^ n) x = x"
    for x
    by (simp add: updateGameState_inactive gameLoop_inactive funpow_fixed)
  have a: "\<not> gameActive (gameState (updateGameState r))
      \<and> (\<exists>w. winner (gameState (updateGameState r)) = Some (name (pstate w (updateGameState r)))
             \<and> MAX_SCORE \<le> score (pstate w (updateGameState r)))
      \<and> (updateGameState ^^ n) (updateGameState r) = updateGameState r
      \<and> (gameLoop ^^ n) (updateGameState r) = updateGameState r"
    if "score (pstate j r) < MAX_SCORE" "MAX_SCORE \<le> score (pstate j (updateGameState r))"
    using tick_over [OF that] fx [of "updateGameState r"] unfolding isOver_def by blast
  have b: "\<not> gameActive (gameState (gameLoop r))
      \<and> (\<exists>w. winner (gameState (gameLoop r)) = Some (name (pstate w (gameLoop r)))
             \<and> MAX_SCORE \<le> score (pstate w (gameLoop r)))
      \<and> (gameLoop ^^ n) (gameLoop r) = gameLoop r"
    if "score (pstate j r) < MAX_SCORE" "MAX_SCORE \<le> score (pstate j (gameLoop r))"
    using gameLoop_over [OF that] fx [of "gameLoop r"] unfolding isOver_def by blast
  have c: "updateGameState r = r \<and> gameLoop r = r
        \<and> (updateGameState ^^ n) r = r \<and> (gameLoop ^^ n) r = r
        \<and> p_x (pstate j ((gameLoop ^^ n) r)) = p_x (pstate j r)
        \<and> p_y (pstate j ((gameLoop ^^ n) r)) = p_y (pstate j r)"
    if "\<not> gameActive (gameState r)"
    using fx [OF that] by simp
  show ?thesis
    using a b c by blast
qed

theorem game_over_idempotent_witness:
  "score (pstate P2 matchPoint) = 20
   \<and> score (pstate P2 (updateGameState matchPoint)) = 21
   \<and> gameActive (gameState matchPoint)
   \<and> \<not> gameActive (gameState (updateGameState matchPoint))
   \<and> winner (gameState (updateGameState matchPoint)) \<noteq> None
   \<and> (gameLoop ^^ 3) (updateGameState matchPoint) = updateGameState matchPoint
   \<and> p_x (pstate P1 ((gameLoop ^^ 3) (updateGameState matchPoint)))
       = p_x (pstate P1 (updateGameState matchPoint))"
proof -
  have h: "score (pstate P2 matchPoint) < MAX_SCORE
      \<and> MAX_SCORE \<le> score (pstate P2 (updateGameState matchPoint))"
    by (simp add: matchPoint_facts(1) matchPoint_tick MAX_SCORE_def)
  note t = game_over_idempotent [where j = P2 and r = matchPoint and n = 3]
  have o: "\<not> gameActive (gameState (updateGameState matchPoint))"
    using t h by blast
  have w: "winner (gameState (updateGameState matchPoint)) \<noteq> None"
    using t h by force
  have f: "(gameLoop ^^ 3) (updateGameState matchPoint) = updateGameState matchPoint"
    using t h by blast
  have p: "p_x (pstate P1 ((gameLoop ^^ 3) (updateGameState matchPoint)))
       = p_x (pstate P1 (updateGameState matchPoint))"
    using game_over_idempotent [where j = P1 and r = "updateGameState matchPoint" and n = 3] o
    by blast
  show ?thesis
    using o w f p matchPoint_facts(1,3) matchPoint_tick by blast
qed

subsection \<open>One event for each exit\<close>

lemma boundsCheck_gameOver_sent:
  assumes "outOfBounds (pstate i r)" and "MAX_SCORE \<le> score (pstate (other i) r) + 1"
  shows "sent (boundsCheck i r) =
           sent r @ [GameOver (name (pstate (other i) r)) (gameState (boundsCheck i r))]"
proof -
  define q where "q = modS (\<lambda>s. s\<lparr>flash := 1\<rparr>) (modP (other i) (\<lambda>p. p\<lparr>score := score p + 1\<rparr>) r)"
  define q4 where "q4 = (modS (\<lambda>s. s\<lparr>gameActive := False, winner := Some (name (pstate (other i) q))\<rparr>) q)
      \<lparr>players := map (\<lambda>c. c\<lparr>pl_selectedAbility := None\<rparr>) (players q)\<rparr>"
  have e: "boundsCheck i r = broadcast (GameOver (name (pstate (other i) q4)) (gameState q4)) q4"
    using assms by (simp add: boundsCheck_def Let_def q_def q4_def modS_room)
  have n: "name (pstate (other i) q4) = name (pstate (other i) r)"
    by (simp add: q4_def q_def pstate_room_upd)
  have s: "sent q4 = sent r"
    by (simp add: q4_def q_def modS_room modP_room)
  show ?thesis
    unfolding e by (simp add: broadcast_def n s)
qed

lemma boundsCheck_reset_sent:
  assumes "outOfBounds (pstate i r)" and "\<not> MAX_SCORE \<le> score (pstate (other i) r) + 1"
  shows "sent (boundsCheck i r) =
           sent r @ [RoundOver (name (pstate (other i) r)) (gameState (boundsCheck i r))]"
  unfolding boundsCheck_reset_eq [OF assms] Let_def
  by (simp add: resetRound_pstate_gen resetRound_room resetPlayerState_def
        setTimeout_def broadcast_def)

lemma newSent_append [simp]: "newSent r (x\<lparr>sent := sent r @ e\<rparr>) = e"
  by (simp add: newSent_def)

lemma newSent_eq: "sent x = sent r @ e \<Longrightarrow> newSent r x = e"
  by (simp add: newSent_def)

lemma newSent_self [simp]: "newSent r r = []"
  by (simp add: newSent_def)

lemma homeX_inside: "\<not> outOfBounds (p\<lparr>p_x := homeX j, p_y := 325\<rparr>)"
  by (cases j) (simp_all add: outOfBounds_def homeX_simps CANVAS_WIDTH_def CANVAS_HEIGHT_def)

lemma boundsCheck_reset_inside:
  assumes "outOfBounds (pstate i r)" and "\<not> MAX_SCORE \<le> score (pstate (other i) r) + 1"
  shows "\<not> outOfBounds (pstate j (boundsCheck i r))"
  using boundsCheck_reset(6,7) [OF assms, of j]
  by (cases j) (simp_all add: outOfBounds_def homeX_simps CANVAS_WIDTH_def CANVAS_HEIGHT_def)


lemma matchPoint_atTest1:
  "atTest1 (newPlayer P1) matchPoint =
     \<lparr>players = [newPlayer P1, newPlayer P2],
      gameState = (createInitialGameState Casual)
        \<lparr>p1 := (createPlayerState ''#00f2ff'' ''BLUE'' 250)\<lparr>p_x := - 32 / 5, p_vx := - 47 / 5\<rparr>,
         p2 := (createPlayerState ''#ff0077'' ''RED'' 750)\<lparr>score := 20\<rparr>\<rparr>,
      r_gameMode = Casual, roundPaused = False, abilityTimers = [], pending = [],
      nextTimer = 1, clock = 1500,
      sent = [GameStarted (createInitialGameState Casual) Casual],
      voidWellIdCounter = 0, mirageIdCounter = 0, random = (\<lambda>n. 0), drawn = 0\<rparr>"
  unfolding atTest1_def matchPoint_fieldPhase
  by (simp add: beforeBounds_def cooldownTick_def integrateVelocity_def movePlayer_def
      shieldBounce_def collectPowerUps_def matchPoint_eq modS_def modP_def pstate_def Let_def
      createInitialGameState_def createPlayerState_def newPlayer_def noKeys_def keyDir_def
      del: getP_gameState p12_gameState)

lemma matchPoint_atTest2:
  "pstate P2 (atTest2 (newPlayer P1) (newPlayer P2) matchPoint)
     = (createPlayerState ''#ff0077'' ''RED'' 750)\<lparr>score := 21\<rparr>"
  unfolding atTest2_def matchPoint_atTest1
  by (simp add: boundsCheck_def outOfBounds_def MAX_SCORE_def broadcast_def
      beforeBounds_def cooldownTick_def integrateVelocity_def movePlayer_def
      shieldBounce_def collectPowerUps_def modS_def modP_def pstate_def Let_def
      createInitialGameState_def createPlayerState_def newPlayer_def noKeys_def keyDir_def
      del: getP_gameState p12_gameState)


lemma quietMsg_no_end: "quietMsg m \<Longrightarrow> \<not> isRoundOver m \<and> \<not> isGameOver m"
  by (cases m) simp_all

lemma quiet_sent:
  assumes "quiet r x"
  shows "\<exists>e. sent x = sent r @ e \<and> roundEnds e = 0 \<and> gameEnds e = 0"
proof -
  obtain e where e: "sent x = sent r @ e" "list_all quietMsg e"
    using quietD(12) [OF assms] by (auto simp add: grows_iff)
  have "filter isRoundOver e = []" "filter isGameOver e = []"
    using e(2) quietMsg_no_end by (auto simp add: list_all_iff filter_empty_conv)
  then show ?thesis
    using e(1) by (simp add: roundEnds_def gameEnds_def)
qed

lemma boundsCheck_sent:
  "\<exists>e. sent (boundsCheck i r) = sent r @ e
     \<and> roundEnds e + gameEnds e = (if outOfBounds (pstate i r) then 1 else 0)"
proof (cases "outOfBounds (pstate i r)")
  case False
  then show ?thesis by (simp add: boundsCheck_inside roundEnds_def gameEnds_def)
next
  case out: True
  show ?thesis
  proof (cases "MAX_SCORE \<le> score (pstate (other i) r) + 1")
    case True
    show ?thesis
      using boundsCheck_gameOver_sent [OF out True] out
      by (simp add: roundEnds_def gameEnds_def)
  next
    case False
    show ?thesis
      using boundsCheck_reset_sent [OF out False] out
      by (simp add: roundEnds_def gameEnds_def)
  qed
qed

lemma ends_append:
  "roundEnds (a @ b) = roundEnds a + roundEnds b" "gameEnds (a @ b) = gameEnds a + gameEnds b"
  by (simp_all add: roundEnds_def gameEnds_def)

lemma tick_unfold:
  assumes act: "gameActive (gameState r)" "\<not> isPaused (gameState r)"
    and f1: "findPlayer P1 r = Some pl1" and f2: "findPlayer P2 r = Some pl2"
  shows "updateGameState r = decayEffects (resolveCollision (boundsCheck P2 (atTest2 pl1 pl2 r)))"
proof -
  have qf: "quiet r (fieldPhase r)" by (rule quiet_fieldPhase [OF quiet_refl])
  have c: "findPlayer P1 (fieldPhase r) = Some pl1" "findPlayer P2 (fieldPhase r) = Some pl2"
    using findPlayer_quiet [OF qf] f1 f2 by simp_all
  show ?thesis
    using act c by (simp add: updateGameState_eq playerStep_eq atTest1_def atTest2_def)
qed

lemma tick_events:
  assumes act: "gameActive (gameState r)" "\<not> isPaused (gameState r)"
    and f1: "findPlayer P1 r = Some pl1" and f2: "findPlayer P2 r = Some pl2"
  shows "roundEnds (newSent r (updateGameState r)) + gameEnds (newSent r (updateGameState r)) =
           (if outOfBounds (pstate P1 (atTest1 pl1 r)) then 1 else 0)
           + (if outOfBounds (pstate P2 (atTest2 pl1 pl2 r)) then 1 else 0)"
    and "score (pstate P2 (updateGameState r)) =
           score (pstate P2 r) + (if outOfBounds (pstate P1 (atTest1 pl1 r)) then 1 else 0)"
    and "score (pstate P1 (updateGameState r)) =
           score (pstate P1 r) + (if outOfBounds (pstate P2 (atTest2 pl1 pl2 r)) then 1 else 0)"
proof -
  define a where "a = atTest1 pl1 r"
  define b where "b = boundsCheck P1 a"
  define c where "c = atTest2 pl1 pl2 r"
  define d where "d = boundsCheck P2 c"
  define x where "x = updateGameState r"
  have cb: "c = beforeBounds P2 pl2 b"
    by (simp add: c_def b_def a_def atTest2_def)
  have xd: "x = decayEffects (resolveCollision d)"
    unfolding x_def d_def c_def by (rule tick_unfold [OF assms])
  have q1: "quiet r a"
    unfolding a_def atTest1_def by (intro quiet_beforeBounds quiet_fieldPhase quiet_refl)
  have q2: "quiet b c"
    unfolding cb by (intro quiet_beforeBounds quiet_refl)
  have q3: "quiet d x"
    unfolding xd by (intro quiet_decayEffects quiet_resolveCollision quiet_refl)
  obtain e1 where e1: "sent a = sent r @ e1" "roundEnds e1 = 0" "gameEnds e1 = 0"
    using quiet_sent [OF q1] by blast
  obtain m1 where m1: "sent b = sent a @ m1"
    "roundEnds m1 + gameEnds m1 = (if outOfBounds (pstate P1 a) then 1 else 0)"
    unfolding b_def using boundsCheck_sent [of P1 a] by blast
  obtain e2 where e2: "sent c = sent b @ e2" "roundEnds e2 = 0" "gameEnds e2 = 0"
    using quiet_sent [OF q2] by blast
  obtain m2 where m2: "sent d = sent c @ m2"
    "roundEnds m2 + gameEnds m2 = (if outOfBounds (pstate P2 c) then 1 else 0)"
    unfolding d_def using boundsCheck_sent [of P2 c] by blast
  obtain e3 where e3: "sent x = sent d @ e3" "roundEnds e3 = 0" "gameEnds e3 = 0"
    using quiet_sent [OF q3] by blast
  have "sent x = sent r @ (e1 @ m1 @ e2 @ m2 @ e3)"
    using e1(1) m1(1) e2(1) m2(1) e3(1) by simp
  then have n: "newSent r x = e1 @ m1 @ e2 @ m2 @ e3"
    by (rule newSent_eq)
  have "roundEnds (newSent r x) + gameEnds (newSent r x) =
      (roundEnds m1 + gameEnds m1) + (roundEnds m2 + gameEnds m2)"
    unfolding n ends_append using e1(2,3) e2(2,3) e3(2,3) by simp
  then show "roundEnds (newSent r (updateGameState r)) + gameEnds (newSent r (updateGameState r)) =
           (if outOfBounds (pstate P1 (atTest1 pl1 r)) then 1 else 0)
           + (if outOfBounds (pstate P2 (atTest2 pl1 pl2 r)) then 1 else 0)"
    unfolding m1(2) m2(2) x_def a_def c_def .
  have s2: "score (pstate P2 x) = score (pstate P2 d)" "score (pstate P2 c) = score (pstate P2 b)"
    "score (pstate P2 a) = score (pstate P2 r)"
    using quiet_ledger(1) [OF q3] quiet_ledger(1) [OF q2] quiet_ledger(1) [OF q1] by simp_all
  have "score (pstate P2 x) = score (pstate P2 r) + (if outOfBounds (pstate P1 a) then 1 else 0)"
    unfolding s2(1) d_def boundsCheck_score s2(2) b_def by (simp add: s2(3))
  then show "score (pstate P2 (updateGameState r)) =
           score (pstate P2 r) + (if outOfBounds (pstate P1 (atTest1 pl1 r)) then 1 else 0)"
    unfolding x_def a_def .
  have s1: "score (pstate P1 x) = score (pstate P1 d)" "score (pstate P1 c) = score (pstate P1 b)"
    "score (pstate P1 a) = score (pstate P1 r)"
    using quiet_ledger(1) [OF q3] quiet_ledger(1) [OF q2] quiet_ledger(1) [OF q1] by simp_all
  have "score (pstate P1 x) = score (pstate P1 r) + (if outOfBounds (pstate P2 c) then 1 else 0)"
    unfolding s1(1) d_def boundsCheck_score s1(2) b_def by (simp add: s1(3))
  then show "score (pstate P1 (updateGameState r)) =
           score (pstate P1 r) + (if outOfBounds (pstate P2 (atTest2 pl1 pl2 r)) then 1 else 0)"
    unfolding x_def c_def .
qed


lemma nearWall_eq:
  "nearWall =
     \<lparr>players = [newPlayer P1, newPlayer P2],
      gameState = (createInitialGameState Casual)
        \<lparr>p1 := (createPlayerState ''#00f2ff'' ''BLUE'' 250)\<lparr>p_x := 3, p_vx := - 10\<rparr>\<rparr>,
      r_gameMode = Casual, roundPaused = False, abilityTimers = [], pending = [],
      nextTimer = 1, clock = 1500,
      sent = [GameStarted (createInitialGameState Casual) Casual],
      voidWellIdCounter = 0, mirageIdCounter = 0, random = (\<lambda>n. 0), drawn = 0\<rparr>"
  by (simp add: nearWall_def duel_eq modP_def createInitialGameState_def)

lemma nearWall_fieldPhase: "fieldPhase nearWall = nearWall"
  by (simp add: fieldPhase_def pulsePowerUps_def updateMirages_def updateVoidWells_def
      infinityField_def nearWall_eq modS_def pstate_def createInitialGameState_def
      createPlayerState_def del: getP_gameState p12_gameState)

lemma nearWall_atTest1:
  "atTest1 (newPlayer P1) nearWall =
     \<lparr>players = [newPlayer P1, newPlayer P2],
      gameState = (createInitialGameState Casual)
        \<lparr>p1 := (createPlayerState ''#00f2ff'' ''BLUE'' 250)\<lparr>p_x := - 32 / 5, p_vx := - 47 / 5\<rparr>\<rparr>,
      r_gameMode = Casual, roundPaused = False, abilityTimers = [], pending = [],
      nextTimer = 1, clock = 1500,
      sent = [GameStarted (createInitialGameState Casual) Casual],
      voidWellIdCounter = 0, mirageIdCounter = 0, random = (\<lambda>n. 0), drawn = 0\<rparr>"
  unfolding atTest1_def nearWall_fieldPhase
  by (simp add: beforeBounds_def cooldownTick_def integrateVelocity_def movePlayer_def
      shieldBounce_def collectPowerUps_def nearWall_eq modS_def modP_def pstate_def Let_def
      createInitialGameState_def createPlayerState_def newPlayer_def noKeys_def keyDir_def
      del: getP_gameState p12_gameState)

lemma nearWall_atTest2:
  "pstate P2 (atTest2 (newPlayer P1) (newPlayer P2) nearWall)
     = (createPlayerState ''#ff0077'' ''RED'' 750)\<lparr>score := 1\<rparr>"
  unfolding atTest2_def nearWall_atTest1
  by (simp add: boundsCheck_def outOfBounds_def MAX_SCORE_def broadcast_def setTimeout_def
      resetRound_def resetPlayerState_def
      beforeBounds_def cooldownTick_def integrateVelocity_def movePlayer_def
      shieldBounce_def collectPowerUps_def modS_def modP_def pstate_def Let_def
      createInitialGameState_def createPlayerState_def newPlayer_def noKeys_def keyDir_def
      del: getP_gameState p12_gameState)

lemma nearWall_facts:
  "gameActive (gameState nearWall)" "\<not> isPaused (gameState nearWall)"
  "findPlayer P1 nearWall = Some (newPlayer P1)" "findPlayer P2 nearWall = Some (newPlayer P2)"
  "score (pstate P1 nearWall) = 0" "score (pstate P2 nearWall) = 0"
  by (simp_all add: nearWall_eq pstate_def createInitialGameState_def createPlayerState_def
      findPlayer_def newPlayer_def del: getP_gameState p12_gameState)

lemma nearWall_test:
  "outOfBounds (pstate P1 (atTest1 (newPlayer P1) nearWall))"
  "score (pstate P2 (atTest1 (newPlayer P1) nearWall)) = 0"
  "name (pstate P2 (atTest1 (newPlayer P1) nearWall)) = ''RED''"
  "\<not> outOfBounds (pstate P2 (atTest2 (newPlayer P1) (newPlayer P2) nearWall))"
  unfolding nearWall_atTest2
  by (simp_all add: nearWall_atTest1 outOfBounds_def pstate_def createInitialGameState_def
      createPlayerState_def CANVAS_WIDTH_def CANVAS_HEIGHT_def del: getP_gameState p12_gameState)

lemma matchPoint_test:
  "outOfBounds (pstate P1 (atTest1 (newPlayer P1) matchPoint))"
  "score (pstate P2 (atTest1 (newPlayer P1) matchPoint)) = 20"
  "name (pstate P2 (atTest1 (newPlayer P1) matchPoint)) = ''RED''"
  "\<not> outOfBounds (pstate P2 (atTest2 (newPlayer P1) (newPlayer P2) matchPoint))"
  unfolding matchPoint_atTest2
  by (simp_all add: matchPoint_atTest1 outOfBounds_def pstate_def createInitialGameState_def
      createPlayerState_def CANVAS_WIDTH_def CANVAS_HEIGHT_def del: getP_gameState p12_gameState)

lemma matchPoint_P2: "findPlayer P2 matchPoint = Some (newPlayer P2)"
  by (simp add: matchPoint_eq findPlayer_def newPlayer_def)



subsection \<open>The dash cooldown\<close>

lemma quietCb_late: "quietCb (t_cb t) \<Longrightarrow> lateEnough i t0 t"
  by (cases "t_cb t") (simp_all add: lateEnough_def)

lemma locked_quiet:
  assumes q: "quiet y z" and l: "dashLocked i t0 y"
  shows "dashLocked i t0 z"
proof -
  obtain e where e: "pending z = pending y @ e" "list_all (\<lambda>t. quietCb (t_cb t)) e"
    using quietD(11) [OF q] by (auto simp add: grows_iff)
  have "list_all (lateEnough i t0) e"
    using e(2) quietCb_late by (auto simp add: list_all_iff)
  then show ?thesis
    using l quietD(7,9) [OF q] quiet_ledger(3) [OF q, of i] e(1)
    by (simp add: dashLocked_def)
qed

lemma locked_boundsCheck:
  assumes l: "dashLocked i t0 y"
  shows "dashLocked i t0 (boundsCheck j y)"
proof (cases "outOfBounds (pstate j y)")
  case False
  then show ?thesis using l by (simp add: boundsCheck_inside)
next
  case out: True
  show ?thesis
  proof (cases "MAX_SCORE \<le> score (pstate (other j) y) + 1")
    case True
    have "dashReady (pstate i (boundsCheck j y)) = dashReady (pstate i y)"
    proof (cases "i = other j")
      case True
      then show ?thesis using boundsCheck_gameOver(1) [OF out \<open>MAX_SCORE \<le> _\<close>] by simp
    next
      case False
      then have "i = j" by (rule pid_other)
      then show ?thesis using boundsCheck_gameOver(2) [OF out \<open>MAX_SCORE \<le> _\<close>] by simp
    qed
    then show ?thesis
      using l boundsCheck_gameOver(7,8,9) [OF out True] by (simp add: dashLocked_def)
  next
    case False
    have "list_all (lateEnough i t0) (pending (boundsCheck j y))"
      if "list_all (lateEnough i t0) (pending y)" "t0 \<le> clock y"
      using that unfolding boundsCheck_reset(14) [OF out False]
      by (simp add: lateEnough_def list_all_iff)
    then show ?thesis
      using l boundsCheck_reset(12,13) [OF out False] by (simp add: dashLocked_def)
  qed
qed

lemma locked_broadcast: "dashLocked i t0 y \<Longrightarrow> dashLocked i t0 (broadcast m y)"
  by (simp add: dashLocked_def broadcast_def)

lemma locked_gameLoop:
  assumes l: "dashLocked i t0 y"
  shows "dashLocked i t0 (gameLoop y)"
proof -
  obtain a b c d where s: "quiet y a" "b = boundsCheck P1 a \<or> b = a" "quiet b c"
    "d = boundsCheck P2 c \<or> d = c" "quiet d (updateGameState y)"
    using tick_shape [of y] by blast
  have "dashLocked i t0 a" using s(1) l by (rule locked_quiet)
  then have "dashLocked i t0 b" using s(2) locked_boundsCheck by auto
  then have "dashLocked i t0 c" using s(3) locked_quiet by blast
  then have "dashLocked i t0 d" using s(4) locked_boundsCheck by auto
  then have "dashLocked i t0 (updateGameState y)" using s(5) locked_quiet by blast
  then show ?thesis
    using l by (simp add: gameLoop_def Let_def locked_broadcast)
qed

lemma quiet_handleAbility: "quiet r (handleAbility c r)"
  unfolding handleAbility_def Let_def
  by (intro quiet_rules quiet_applyPowerUp; simp add: pkeep_def COMP_COOLDOWN_def)

lemma locked_onAbility: "dashLocked i t0 y \<Longrightarrow> dashLocked i t0 (onAbility c y)"
  using locked_quiet [OF quiet_handleAbility] by (simp add: onAbility_def)

lemma handleDash_locked_noop:
  assumes "dashLocked i t0 y" and "clock y < t0 + 1600" and "pl_id c = i"
  shows "handleDash c y = y"
  using assms by (auto simp add: dashLocked_def handleDash_def)

lemma handleDash_frame:
  "clock (handleDash c y) = clock y" "roundPaused (handleDash c y) = roundPaused y"
  "j \<noteq> pl_id c \<Longrightarrow> pstate j (handleDash c y) = pstate j y"
  "\<exists>e. pending (handleDash c y) = pending y @ e
       \<and> list_all (\<lambda>t. t_cb t = DashOff (pl_id c) \<or> t_cb t = BlockOff (pl_id c)
                         \<or> t_cb t = DashReadyOn (pl_id c)) e"
  by (simp_all add: handleDash_def Let_def split_beta setTimeout_def)

lemma locked_handleDash:
  assumes l: "dashLocked i t0 y"
  shows "dashLocked i t0 (handleDash c y)"
proof (cases "pl_id c = i")
  case True
  show ?thesis
  proof (cases "clock y < t0 + 1600")
    case True
    then show ?thesis using handleDash_locked_noop [OF l True \<open>pl_id c = i\<close>] l by simp
  next
    case False
    then show ?thesis using l by (simp add: dashLocked_def handleDash_frame(1))
  qed
next
  case False
  obtain e where e: "pending (handleDash c y) = pending y @ e"
    "list_all (\<lambda>t. t_cb t = DashOff (pl_id c) \<or> t_cb t = BlockOff (pl_id c)
                         \<or> t_cb t = DashReadyOn (pl_id c)) e"
    using handleDash_frame(4) [of c y] by blast
  have "list_all (lateEnough i t0) e"
    using e(2) False by (auto simp add: list_all_iff lateEnough_def)
  then show ?thesis
    using l False e(1) by (simp add: dashLocked_def handleDash_frame)
qed


lemma clock_runCallback: "clock (runCallback cb h y) = clock y"
proof (cases "quietCb cb")
  case True
  show ?thesis by (rule quietD(9) [OF quiet_runCallback [OF True quiet_refl]])
next
  case False
  then show ?thesis by (cases cb) (simp_all add: setTimeout_def broadcast_def)
qed

lemma locked_runCallback:
  assumes l: "dashLocked i t0 y" and due: "t_due t \<le> clock y" and late: "clock y < t0 + 1600 \<longrightarrow> lateEnough i t0 t"
  shows "dashLocked i t0 (runCallback (t_cb t) h y)"
proof (cases "clock y < t0 + 1600")
  case False
  then show ?thesis using l by (simp add: dashLocked_def clock_runCallback)
next
  case early: True
  then have lt: "lateEnough i t0 t" using late by simp
  show ?thesis
  proof (cases "quietCb (t_cb t)")
    case True
    show ?thesis using quiet_runCallback [OF True quiet_refl] l by (rule locked_quiet)
  next
    case False
    then consider j where "t_cb t = DashReadyOn j" | "t_cb t = RoundReadyCb"
      | "t_cb t = RoundGoCb" | "t_cb t = StartUnpause"
      by (cases "t_cb t") simp_all
    then show ?thesis
    proof cases
      case 1
      have "j \<noteq> i" using lt due early 1 by (auto simp add: lateEnough_def)
      then show ?thesis using l 1 by (simp add: dashLocked_def)
    next
      case 2
      have "t0 + 1000 \<le> clock y" using lt due 2 by (simp add: lateEnough_def)
      then show ?thesis
        using l 2 by (simp add: dashLocked_def setTimeout_def broadcast_def lateEnough_def)
    next
      case 3
      then show ?thesis using lt due early by (simp add: lateEnough_def)
    next
      case 4
      then show ?thesis using lt due early by (simp add: lateEnough_def)
    qed
  qed
qed

lemma locked_fire:
  assumes l: "dashLocked i t0 y"
  shows "dashLocked i t0 (fire h y)"
proof (cases "find (\<lambda>t. t_id t = h) (pending y)")
  case None
  then show ?thesis using l by (simp add: fire_def)
next
  case (Some t)
  then have mem: "t \<in> set (pending y)"
    by (auto simp add: find_Some_iff)
  show ?thesis
  proof (cases "t_due t \<le> clock y")
    case False
    then show ?thesis using l Some by (simp add: fire_def)
  next
    case True
    have l1: "dashLocked i t0 (clearTimeout h y)"
      using l by (simp add: dashLocked_def clearTimeout_def list_all_iff)
    have late: "clock (clearTimeout h y) < t0 + 1600 \<longrightarrow> lateEnough i t0 t"
      using l mem by (simp add: dashLocked_def clearTimeout_def list_all_iff)
    have "dashLocked i t0 (runCallback (t_cb t) h (clearTimeout h y))"
      using l1 _ late by (rule locked_runCallback) (simp add: True clearTimeout_def)
    then have "dashLocked i t0 ((runCallback (t_cb t) h (clearTimeout h y))\<lparr>abilityTimers := ats\<rparr>)" for ats
      by (simp add: dashLocked_def)
    then show ?thesis
      using Some True \<open>dashLocked i t0 (runCallback (t_cb t) h (clearTimeout h y))\<close>
      by (simp add: fire_def Let_def)
  qed
qed

lemma locked_roomStep: "dashLocked i t0 y \<Longrightarrow> dashLocked i t0 (roomStep e y)"
proof (cases e)
  case (Elapse dt)
  assume "dashLocked i t0 y"
  then show ?thesis using Elapse by (auto simp add: dashLocked_def advanceClock_def)
next
  case (InputMsg j k)
  assume "dashLocked i t0 y"
  then show ?thesis using InputMsg by (simp add: dashLocked_def)
qed (simp_all add: locked_gameLoop locked_fire locked_handleDash locked_onAbility)

lemma locked_roomRun: "dashLocked i t0 y \<Longrightarrow> dashLocked i t0 (roomRun es y)"
  unfolding roomRun_def
  by (induction es arbitrary: y) (simp_all add: locked_roomStep)

lemma clock_boundsCheck: "clock (boundsCheck j y) = clock y"
proof (cases "outOfBounds (pstate j y)")
  case False
  then show ?thesis by (simp add: boundsCheck_inside)
next
  case out: True
  show ?thesis
    using boundsCheck_gameOver(9) [OF out] boundsCheck_reset(13) [OF out]
    by (cases "MAX_SCORE \<le> score (pstate (other j) y) + 1") simp_all
qed

lemma clock_gameLoop: "clock (gameLoop y) = clock y"
proof -
  obtain a b c d where s: "quiet y a" "b = boundsCheck P1 a \<or> b = a" "quiet b c"
    "d = boundsCheck P2 c \<or> d = c" "quiet d (updateGameState y)"
    using tick_shape [of y] by blast
  have "clock (updateGameState y) = clock y"
    using quietD(9) [OF s(1)] quietD(9) [OF s(3)] quietD(9) [OF s(5)] s(2,4)
    by (auto simp add: clock_boundsCheck)
  then show ?thesis
    by (simp add: gameLoop_def Let_def broadcast_def)
qed

lemma clock_fire: "clock (fire h y) = clock y"
  by (simp add: fire_def Let_def clock_runCallback clearTimeout_def split: option.splits)

lemma clock_roomStep: "clock (roomStep e y) = clock y + elapsed [e]"
proof (cases e)
  case (AbilityMsg c)
  show ?thesis
    using quietD(9) [OF quiet_handleAbility, of c y] by (simp add: AbilityMsg onAbility_def)
qed (simp_all add: clock_gameLoop clock_fire handleDash_frame(1) advanceClock_def)

lemma elapsed_Cons: "elapsed (e # es) = elapsed [e] + elapsed es"
  by (cases e) simp_all

lemma clock_roomRun: "clock (roomRun es y) = clock y + elapsed es"
  unfolding roomRun_def
proof (induction es arbitrary: y)
  case Nil
  then show ?case by simp
next
  case (Cons e es)
  show ?case
    using Cons.IH [of "roomStep e y"] elapsed_Cons [of e es] by (simp add: clock_roomStep)
qed

lemma handleDash_refused: "\<not> canDash c r \<Longrightarrow> handleDash c r = r"
  by (auto simp add: canDash_def handleDash_def Let_def)

lemma handleDash_accepted:
  assumes "canDash c r"
  shows "\<not> dashReady (pstate (pl_id c) (handleDash c r))"
    and "\<not> roundPaused (handleDash c r)"
    and "\<exists>t. pending (handleDash c r) =
            pending r @ [t, \<lparr>t_id = Suc (nextTimer r), t_due = clock r + 1600,
                             t_cb = DashReadyOn (pl_id c), t_tracked = False\<rparr>]
          \<and> (t_cb t = DashOff (pl_id c) \<or> t_cb t = BlockOff (pl_id c))"
  using assms
  by (simp_all add: canDash_def handleDash_def Let_def split_beta setTimeout_def)

lemma locked_start:
  assumes a: "canDash c r" and late: "list_all (lateEnough (pl_id c) (clock r)) (pending r)"
  shows "dashLocked (pl_id c) (clock r) (handleDash c r)"
proof -
  obtain t where t: "pending (handleDash c r) =
            pending r @ [t, \<lparr>t_id = Suc (nextTimer r), t_due = clock r + 1600,
                             t_cb = DashReadyOn (pl_id c), t_tracked = False\<rparr>]"
    "t_cb t = DashOff (pl_id c) \<or> t_cb t = BlockOff (pl_id c)"
    using handleDash_accepted(3) [OF a] by blast
  have "lateEnough (pl_id c) (clock r) t"
    using t(2) by (auto simp add: lateEnough_def)
  then show ?thesis
    using handleDash_accepted(1) [OF a] late t(1)
    by (simp add: dashLocked_def handleDash_frame(1) lateEnough_def)
qed

lemma cooldown_trace:
  assumes a: "canDash c r" and late: "list_all (lateEnough (pl_id c) (clock r)) (pending r)"
    and el: "elapsed es < 1600" and c': "pl_id c' = pl_id c"
  shows "handleDash c' (roomRun es (handleDash c r)) = roomRun es (handleDash c r)"
proof -
  have l: "dashLocked (pl_id c) (clock r) (roomRun es (handleDash c r))"
    by (rule locked_roomRun [OF locked_start [OF a late]])
  have "clock (roomRun es (handleDash c r)) < clock r + 1600"
    using el by (simp add: clock_roomRun handleDash_frame(1))
  then show ?thesis
    using l c' by (intro handleDash_locked_noop [where i = "pl_id c" and ?t0.0 = "clock r"]) simp_all
qed

lemma block_effect:
  assumes "canDash c r" and "\<not> isGrid (pstate (pl_id c) r)" and "keyDir (keys c) = (0, 0)"
  shows "pstate (pl_id c) (handleDash c r) =
           (pstate (pl_id c) r)\<lparr>p_vx := 0, p_vy := 0, isBlocking := True, dashReady := False\<rparr>"
    and "pending (handleDash c r) =
           pending r @ [\<lparr>t_id = nextTimer r, t_due = clock r + 400,
                          t_cb = BlockOff (pl_id c), t_tracked = False\<rparr>,
                        \<lparr>t_id = Suc (nextTimer r), t_due = clock r + 1600,
                          t_cb = DashReadyOn (pl_id c), t_tracked = False\<rparr>]"
  using assms
  by (simp_all add: canDash_def handleDash_def Let_def setTimeout_def)

lemma dash_effect:
  assumes "canDash c r" and "\<not> isGrid (pstate (pl_id c) r)" and "keyDir (keys c) \<noteq> (0, 0)"
  shows "pstate (pl_id c) (handleDash c r) =
           (pstate (pl_id c) r)\<lparr>p_vx := cos (atan2 (snd (keyDir (keys c))) (fst (keyDir (keys c)))) * 23,
                                  p_vy := sin (atan2 (snd (keyDir (keys c))) (fst (keyDir (keys c)))) * 23,
                                  isDashing := True, dashReady := False\<rparr>"
    and "pending (handleDash c r) =
           pending r @ [\<lparr>t_id = nextTimer r, t_due = clock r + 350,
                          t_cb = DashOff (pl_id c), t_tracked = False\<rparr>,
                        \<lparr>t_id = Suc (nextTimer r), t_due = clock r + 1600,
                          t_cb = DashReadyOn (pl_id c), t_tracked = False\<rparr>]"
  using assms
  by (auto simp add: canDash_def handleDash_def Let_def setTimeout_def split_beta prod_eq_iff)


lemma find_fresh:
  assumes "list_all (\<lambda>t. t_id t < n) ts" and "t_id a = n" and "t_id b = Suc n"
  shows "find (\<lambda>t. t_id t = Suc n) (ts @ [a, b]) = Some b"
  using assms by (induction ts) simp_all

lemma handleDash_timers:
  assumes "canDash c r"
  shows "\<exists>t. pending (handleDash c r) =
            pending r @ [t, \<lparr>t_id = Suc (nextTimer r), t_due = clock r + 1600,
                             t_cb = DashReadyOn (pl_id c), t_tracked = False\<rparr>]
          \<and> t_id t = nextTimer r"
  using assms
  by (simp add: canDash_def handleDash_def Let_def split_beta setTimeout_def)

lemma cooldown_release:
  assumes a: "canDash c r" and fresh: "list_all (\<lambda>t. t_id t < nextTimer r) (pending r)"
  shows "dt < 1600 \<Longrightarrow>
           fire (Suc (nextTimer r)) (advanceClock dt (handleDash c r)) = advanceClock dt (handleDash c r)"
    and "1600 \<le> dt \<Longrightarrow>
           dashReady (pstate (pl_id c) (fire (Suc (nextTimer r)) (advanceClock dt (handleDash c r))))"
proof -
  define d where "d = \<lparr>t_id = Suc (nextTimer r), t_due = clock r + 1600,
                             t_cb = DashReadyOn (pl_id c), t_tracked = False\<rparr>"
  obtain t where t: "pending (handleDash c r) = pending r @ [t, d]" "t_id t = nextTimer r"
    using handleDash_timers [OF a] unfolding d_def by blast
  have f: "find (\<lambda>t. t_id t = Suc (nextTimer r)) (pending (advanceClock dt (handleDash c r))) = Some d"
    unfolding advanceClock_def using find_fresh [OF fresh t(2), of d] t(1) by (simp add: d_def)
  have ck: "clock (advanceClock dt (handleDash c r)) = clock r + max 0 dt"
    by (simp add: advanceClock_def handleDash_frame(1))
  show "fire (Suc (nextTimer r)) (advanceClock dt (handleDash c r)) = advanceClock dt (handleDash c r)"
    if "dt < 1600"
    using that by (simp add: fire_def f ck) (simp add: d_def)
  show "dashReady (pstate (pl_id c) (fire (Suc (nextTimer r)) (advanceClock dt (handleDash c r))))"
    if "1600 \<le> dt"
    using that by (simp add: fire_def f ck) (simp add: d_def)
qed



lemma duel_fields:
  "pending (duel mode) = []" "nextTimer (duel mode) = 1" "clock (duel mode) = 1500"
  "\<not> roundPaused (duel mode)"
  by (simp_all add: duel_eq)


subsection \<open>Timers that a round reset leaves pending\<close>

lemma blitz_untracked: "abilityTimers (applyPowerUp i j ''BLITZ'' r) = abilityTimers r"
  by (simp add: applyPowerUp_def performBlitzDash_def Let_def split_beta setTimeout_def)

lemma blitzRoom_eq:
  "blitzRoom =
     \<lparr>players = [newPlayer P1, newPlayer P2],
      gameState = (createInitialGameState Casual)
        \<lparr>p1 := (createPlayerState ''#00f2ff'' ''BLUE'' 250)\<lparr>p_vx := 20, isDashing := True\<rparr>\<rparr>,
      r_gameMode = Casual, roundPaused = False, abilityTimers = [],
      pending = [\<lparr>t_id = 1, t_due = 1650, t_cb = BlitzEnd P1 P2 20 1, t_tracked = False\<rparr>],
      nextTimer = 2, clock = 1500,
      sent = [GameStarted (createInitialGameState Casual) Casual],
      voidWellIdCounter = 0, mirageIdCounter = 0, random = (\<lambda>n. 0), drawn = 0\<rparr>"
  by (simp add: blitzRoom_def applyPowerUp_def performBlitzDash_def Let_def setTimeout_def
      findPlayer_def duel_eq modP_def pstate_def createInitialGameState_def createPlayerState_def
      newPlayer_def noKeys_def keyDir_def del: getP_gameState p12_gameState)

lemma blitz_reset:
  "resetRound blitzRoom =
     \<lparr>players = [newPlayer P1, newPlayer P2],
      gameState = createInitialGameState Casual,
      r_gameMode = Casual, roundPaused = False, abilityTimers = [],
      pending = [\<lparr>t_id = 1, t_due = 1650, t_cb = BlitzEnd P1 P2 20 1, t_tracked = False\<rparr>],
      nextTimer = 2, clock = 1500,
      sent = [GameStarted (createInitialGameState Casual) Casual],
      voidWellIdCounter = 0, mirageIdCounter = 0, random = (\<lambda>n. 0), drawn = 0\<rparr>"
  unfolding blitzRoom_eq
  by (simp add: resetRound_def resetPlayerState_def Let_def modS_def modP_def
      createInitialGameState_def createPlayerState_def del: getP_gameState p12_gameState)

lemma blitz_end_fires:
  "fire 1 (advanceClock 150 (resetRound blitzRoom)) =
     \<lparr>players = [newPlayer P1, newPlayer P2],
      gameState = (createInitialGameState Casual)
        \<lparr>p1 := (createPlayerState ''#00f2ff'' ''BLUE'' 250)\<lparr>isStunned := True\<rparr>\<rparr>,
      r_gameMode = Casual, roundPaused = False, abilityTimers = [],
      pending = [\<lparr>t_id = 2, t_due = 1770, t_cb = BlitzResume P1 P2 20 1, t_tracked = False\<rparr>],
      nextTimer = 3, clock = 1650,
      sent = [GameStarted (createInitialGameState Casual) Casual],
      voidWellIdCounter = 0, mirageIdCounter = 0, random = (\<lambda>n. 0), drawn = 0\<rparr>"
  unfolding blitz_reset
  by (simp add: fire_def advanceClock_def clearTimeout_def setTimeout_def Let_def modP_def
      createInitialGameState_def createPlayerState_def del: getP_gameState p12_gameState)

lemma blitz_resumes:
  "fire 2 (advanceClock 120 (fire 1 (advanceClock 150 (resetRound blitzRoom)))) =
     \<lparr>players = [newPlayer P1, newPlayer P2],
      gameState = (createInitialGameState Casual)
        \<lparr>p1 := (createPlayerState ''#00f2ff'' ''BLUE'' 250)\<lparr>p_vx := 20, isDashing := True\<rparr>\<rparr>,
      r_gameMode = Casual, roundPaused = False, abilityTimers = [],
      pending = [\<lparr>t_id = 3, t_due = 1920, t_cb = BlitzEnd P1 P2 20 2, t_tracked = False\<rparr>],
      nextTimer = 4, clock = 1770,
      sent = [GameStarted (createInitialGameState Casual) Casual],
      voidWellIdCounter = 0, mirageIdCounter = 0, random = (\<lambda>n. 0), drawn = 0\<rparr>"
  unfolding blitz_end_fires
  by (simp add: fire_def advanceClock_def clearTimeout_def setTimeout_def Let_def modP_def
      performBlitzDash_def findPlayer_def pstate_def
      createInitialGameState_def createPlayerState_def newPlayer_def noKeys_def keyDir_def
      del: getP_gameState p12_gameState)


lemma speed_reset_pending:
  "pending (applyPowerUp P1 P2 ''SPEED'' (duel Casual)) =
     [\<lparr>t_id = 1, t_due = 6500, t_cb = SpeedOff P1, t_tracked = True\<rparr>]"
  "abilityTimers (applyPowerUp P1 P2 ''SPEED'' (duel Casual)) = [1]"
  "pending (resetRound (applyPowerUp P1 P2 ''SPEED'' (duel Casual))) = []"
  by (simp_all add: resetRound_room applyPowerUp_def trackTimer_def duel_fields)
     (simp add: duel_eq)

text \<open>
  C1. BLITZ queues the closures of its dash chain with plain \<^verbatim>\<open>setTimeout\<close>: it adds no
  handle to \<^verbatim>\<open>room.abilityTimers\<close>. A round reset removes from the timer queue exactly
  the timers whose handle is in \<^verbatim>\<open>room.abilityTimers\<close>. In a started casual duel in which
  player 1 has just taken BLITZ, a round reset therefore leaves the closure of the first
  dash pending (where the timer of SPEED, queued with \<^verbatim>\<open>trackTimer\<close>, is cancelled): the
  reset puts player 1 back as a fresh player, and 150 ms later the closure stuns the
  player of the new round, and 120 ms after that the next closure sends it dashing at
  speed 20.
\<close>

theorem blitz_survives_reset:
  "abilityTimers (applyPowerUp i j ''BLITZ'' r) = abilityTimers r
   \<and> pending (resetRound r) = filter (\<lambda>t. t_id t \<notin> set (abilityTimers r)) (pending r)
   \<and> pending (resetRound (applyPowerUp P1 P2 ''SPEED'' (duel Casual))) = []
   \<and> abilityTimers blitzRoom = []
   \<and> pending blitzRoom =
       [\<lparr>t_id = 1, t_due = 1650, t_cb = BlitzEnd P1 P2 20 1, t_tracked = False\<rparr>]
   \<and> pending (resetRound blitzRoom) = pending blitzRoom
   \<and> pstate P1 (resetRound blitzRoom) = createPlayerState ''#00f2ff'' ''BLUE'' 250
   \<and> isStunned (pstate P1 (fire 1 (advanceClock 150 (resetRound blitzRoom))))
   \<and> p_vx (pstate P1 (fire 2 (advanceClock 120 (fire 1 (advanceClock 150 (resetRound blitzRoom))))))
       = 20
   \<and> isDashing
        (pstate P1 (fire 2 (advanceClock 120 (fire 1 (advanceClock 150 (resetRound blitzRoom))))))"
proof -
  have a: "abilityTimers blitzRoom = []"
    "pending blitzRoom =
       [\<lparr>t_id = 1, t_due = 1650, t_cb = BlitzEnd P1 P2 20 1, t_tracked = False\<rparr>]"
    by (simp_all add: blitzRoom_eq)
  have b: "pending (resetRound blitzRoom) = pending blitzRoom"
    "pstate P1 (resetRound blitzRoom) = createPlayerState ''#00f2ff'' ''BLUE'' 250"
    unfolding blitz_reset a
    by (simp_all add: pstate_def createInitialGameState_def del: getP_gameState p12_gameState)
  have c: "isStunned (pstate P1 (fire 1 (advanceClock 150 (resetRound blitzRoom))))"
    unfolding blitz_end_fires
    by (simp add: pstate_def createInitialGameState_def del: getP_gameState p12_gameState)
  have d: "p_vx (pstate P1 (fire 2 (advanceClock 120 (fire 1 (advanceClock 150 (resetRound blitzRoom))))))
       = 20"
    "isDashing
        (pstate P1 (fire 2 (advanceClock 120 (fire 1 (advanceClock 150 (resetRound blitzRoom))))))"
    unfolding blitz_resumes
    by (simp_all add: pstate_def createInitialGameState_def del: getP_gameState p12_gameState)
  show ?thesis
    using blitz_untracked [of i j r] resetRound_room(1) [of r] speed_reset_pending(3) a b c d
    by simp
qed

end
